theory Spec2Isabelle
  imports Complex_Main
begin

section \<open>Strings and numbers of the source language\<close>

text \<open>
  A JavaScript string is a sequence of UTF-16 code units; it is modelled as the list of
  its code units. ASCII literals of the source are written with \<open>u\<close>; the Japanese
  literals are written out code unit by code unit, with their reading in the comment.
  A \<open>Buffer\<close> is the list of its bytes. A JavaScript number that the program only
  passes on (the amount) is a real; numbers that it counts with are naturals.
\<close>

type_synonym jsstring = "nat list"

type_synonym buffer = "nat list"

type_synonym number = real

definition u :: "string \<Rightarrow> jsstring" where
  "u s = map of_char s"

text \<open>The literal "sonota" (category "other" and the directory of that name).\<close>

definition lit_sonota :: jsstring where
  "lit_sonota = [0x305D, 0x306E, 0x4ED6]"

text \<open>The literal "3-ryoshusho" (directory "3-receipts").\<close>

definition lit_3_ryoshusho :: jsstring where
  "lit_3_ryoshusho = [0x33, 0x2D, 0x9818, 0x53CE, 0x66F8]"

text \<open>The literal "7-sonota" (directory "7-other").\<close>

definition lit_7_sonota :: jsstring where
  "lit_7_sonota = [0x37, 0x2D, 0x305D, 0x306E, 0x4ED6]"

text \<open>The five specific categories: kaigihi (meetings), kotsuhi (transport),
  settaikosaihi (entertainment), shomohinhi (supplies), tsushinhi (communications).\<close>

definition lit_kaigihi :: jsstring where
  "lit_kaigihi = [0x4F1A, 0x8B70, 0x8CBB]"

definition lit_kotsuhi :: jsstring where
  "lit_kotsuhi = [0x4EA4, 0x901A, 0x8CBB]"

definition lit_settaikosaihi :: jsstring where
  "lit_settaikosaihi = [0x63A5, 0x5F85, 0x4EA4, 0x969B, 0x8CBB]"

definition lit_shomohinhi :: jsstring where
  "lit_shomohinhi = [0x6D88, 0x8017, 0x54C1, 0x8CBB]"

definition lit_tsushinhi :: jsstring where
  "lit_tsushinhi = [0x901A, 0x4FE1, 0x8CBB]"

text \<open>The literal "fumei" (unknown vendor).\<close>

definition lit_fumei :: jsstring where
  "lit_fumei = [0x4E0D, 0x660E]"

text \<open>The literal "25-nen made no keihi" (expenses up to year 25): the legacy directory.\<close>

definition lit_legacy :: jsstring where
  "lit_legacy = [0x32, 0x35, 0x5E74, 0x307E, 0x3067, 0x306E, 0x7D4C, 0x8CBB]"

text \<open>The message "fairu ga kara desu" (the file is empty).\<close>

definition lit_file_empty :: jsstring where
  "lit_file_empty = [0x30D5, 0x30A1, 0x30A4, 0x30EB, 0x304C, 0x7A7A, 0x3067, 0x3059]"

text \<open>The text "foruda ga mitsukarimasen" (directory not found), shared by three messages.\<close>

definition lit_folder_not_found :: jsstring where
  "lit_folder_not_found =
     [0x30D5, 0x30A9, 0x30EB, 0x30C0, 0x304C, 0x898B, 0x3064, 0x304B, 0x308A, 0x307E, 0x305B, 0x3093]"

text \<open>The message for a missing legacy directory: the legacy name between corner
  brackets, then "directory not found".\<close>

definition lit_legacy_missing :: jsstring where
  "lit_legacy_missing = [0x300C] @ lit_legacy @ [0x300D] @ lit_folder_not_found"

text \<open>The prefix "tsuki-foruda ga mitsukarimasen: " (month directory not found).\<close>

definition lit_month_missing :: jsstring where
  "lit_month_missing = [0x6708] @ lit_folder_not_found @ [0x3A, 0x20]"

text \<open>The prefix "kategori-foruda ga mitsukarimasen: " (category directory not found).\<close>

definition lit_category_missing :: jsstring where
  "lit_category_missing = [0x30AB, 0x30C6, 0x30B4, 0x30EA] @ lit_folder_not_found @ [0x3A, 0x20]"

text \<open>The infix ". riyo kano: " (available).\<close>

definition lit_available :: jsstring where
  "lit_available = [0x2E, 0x20, 0x5229, 0x7528, 0x53EF, 0x80FD, 0x3A, 0x20]"

text \<open>The message "AI kara no oto ga kara desu" (the answer of the model is empty).\<close>

definition lit_ai_empty :: jsstring where
  "lit_ai_empty = [0x41, 0x49, 0x304B, 0x3089, 0x306E, 0x5FDC, 0x7B54, 0x304C, 0x7A7A, 0x3067, 0x3059]"

text \<open>The message "ritorai jogen ni tasshimashita" (retry limit reached).\<close>

definition lit_retry_limit :: jsstring where
  "lit_retry_limit =
     [0x30EA, 0x30C8, 0x30E9, 0x30A4, 0x4E0A, 0x9650, 0x306B, 0x9054, 0x3057, 0x307E, 0x3057, 0x305F]"

text \<open>The success message of a single page: the file name between corner brackets,
  then "wo hozon shimashita!" (has been saved).\<close>

definition lit_saved :: jsstring where
  "lit_saved = [0x300D, 0x3092, 0x4FDD, 0x5B58, 0x3057, 0x307E, 0x3057, 0x305F, 0xFF01]"

text \<open>The texts of the PDF messages: "peji" (page), "PDF shori shippai: " (PDF processing
  failed), "peji-chu" (of pages), "peji hozon kanryo" (pages saved), "peji shippai)"
  (pages failed).\<close>

definition lit_page :: jsstring where
  "lit_page = [0x30DA, 0x30FC, 0x30B8]"

definition lit_pdf_failed :: jsstring where
  "lit_pdf_failed = [0x50, 0x44, 0x46, 0x51E6, 0x7406, 0x5931, 0x6557, 0x3A, 0x20]"

definition lit_pages_of :: jsstring where
  "lit_pages_of = lit_page @ [0x4E2D]"

definition lit_pages_saved :: jsstring where
  "lit_pages_saved = lit_page @ [0x4FDD, 0x5B58, 0x5B8C, 0x4E86]"

definition lit_pages_failed :: jsstring where
  "lit_pages_failed = lit_page @ [0x5931, 0x6557, 0x29]"

subsection \<open>String operations\<close>

text \<open>A number in a template literal: the decimal digits of a natural number.\<close>

fun showNumber :: "nat \<Rightarrow> jsstring" where
  "showNumber n = (if n < 10 then [48 + n] else showNumber (n div 10) @ [48 + n mod 10])"

declare showNumber.simps [simp del]

text \<open>\<open>a || b\<close> where \<open>a\<close> is a string or missing: the empty string is falsy too.\<close>

definition orElse :: "jsstring option \<Rightarrow> jsstring \<Rightarrow> jsstring" where
  "orElse a b = (case a of None \<Rightarrow> b | Some s \<Rightarrow> if s = [] then b else s)"

text \<open>\<open>a ?? b\<close>: only a missing value (\<open>undefined\<close>, \<open>null\<close>) is replaced.\<close>

definition nullish :: "'a option \<Rightarrow> 'a \<Rightarrow> 'a" where
  "nullish a b = (case a of None \<Rightarrow> b | Some v \<Rightarrow> v)"

text \<open>\<open>s.split(sep)\<close> for a separator of one code unit.\<close>

fun split :: "nat \<Rightarrow> jsstring \<Rightarrow> jsstring list" where
  "split sep [] = [[]]"
| "split sep (c # cs) =
     (if c = sep then [] # split sep cs
      else (case split sep cs of [] \<Rightarrow> [[c]] | p # ps \<Rightarrow> (c # p) # ps))"

text \<open>\<open>s.slice(-2)\<close>: the last two code units, or all of a shorter string.\<close>

definition slice_last2 :: "jsstring \<Rightarrow> jsstring" where
  "slice_last2 s = drop (length s - 2) s"

definition endsWith :: "jsstring \<Rightarrow> jsstring \<Rightarrow> bool" where
  "endsWith s suffix = (length suffix \<le> length s \<and> drop (length s - length suffix) s = suffix)"

text \<open>\<open>xs.join(sep)\<close>.\<close>

fun join :: "jsstring \<Rightarrow> jsstring list \<Rightarrow> jsstring" where
  "join sep [] = []"
| "join sep [x] = x"
| "join sep (x # y # ys) = x @ sep @ join sep (y # ys)"

text \<open>A value in a template literal that may be \<open>undefined\<close>.\<close>

definition template :: "jsstring option \<Rightarrow> jsstring" where
  "template v = (case v of None \<Rightarrow> u ''undefined'' | Some s \<Rightarrow> s)"

text \<open>
  \<open>parseInt(s, 10)\<close>: leading white space is skipped, one sign is read, then the
  longest run of decimal digits; \<open>None\<close> is NaN. The value is kept exact: the program
  only compares it with 2025, and rounding to a double does not change that comparison.
\<close>

definition isWhiteSpace :: "nat \<Rightarrow> bool" where
  "isWhiteSpace c =
     (c \<in> {0x09, 0x0A, 0x0B, 0x0C, 0x0D, 0x20, 0xA0, 0x1680, 0x2028, 0x2029, 0x202F, 0x205F, 0x3000, 0xFEFF}
      \<or> (0x2000 \<le> c \<and> c \<le> 0x200A))"

definition isDigit :: "nat \<Rightarrow> bool" where
  "isDigit c = (48 \<le> c \<and> c \<le> 57)"

definition digitsValue :: "jsstring \<Rightarrow> int" where
  "digitsValue ds = foldl (\<lambda>acc c. 10 * acc + (int c - 48)) 0 ds"

definition parseInt :: "jsstring \<Rightarrow> int option" where
  "parseInt s =
     (let s1 = dropWhile isWhiteSpace s;
          sign = (case s1 of c # _ \<Rightarrow> if c = 0x2D then - 1 else 1 | [] \<Rightarrow> (1::int));
          s2 = (case s1 of c # r \<Rightarrow> if c = 0x2B \<or> c = 0x2D then r else s1 | [] \<Rightarrow> s1);
          ds = takeWhile isDigit s2
      in if ds = [] then None else Some (sign * digitsValue ds))"

text \<open>\<open>year <= 2025\<close>: a comparison with NaN is false.\<close>

definition year_le :: "int option \<Rightarrow> int \<Rightarrow> bool" where
  "year_le year bound = (case year of None \<Rightarrow> False | Some y \<Rightarrow> y \<le> bound)"

text \<open>\<open>arr.indexOf(v)\<close>: the first index of \<open>v\<close>, or -1.\<close>

fun indexOf :: "'a list \<Rightarrow> 'a \<Rightarrow> int" where
  "indexOf [] v = - 1"
| "indexOf (x # xs) v = (if x = v then 0 else (let r = indexOf xs v in if r < 0 then - 1 else r + 1))"

section \<open>Data\<close>

text \<open>Exceptions: \<open>new Error(message)\<close>, and the TypeError and SyntaxError that the
  language itself throws, each with its message.\<close>

datatype exn = Error jsstring | TypeError jsstring | SyntaxError jsstring

fun exn_message :: "exn \<Rightarrow> jsstring" where
  "exn_message (Error m) = m"
| "exn_message (TypeError m) = m"
| "exn_message (SyntaxError m) = m"

text \<open>
  The value of \<open>JSON.parse(text)\<close> that \<open>callGemini\<close> returns: an object whose four
  recognised fields, where present, have the types that \<open>ReceiptData\<close> declares.
  \<open>None\<close> is a field that is missing or \<open>null\<close>.
\<close>

record parsed =
  data_date :: "jsstring option"
  data_amount :: "number option"
  data_vendor :: "jsstring option"
  data_category :: "jsstring option"

record receiptData =
  r_date :: jsstring
  r_amount :: number
  r_vendor :: jsstring
  r_category :: jsstring
  r_fileName :: jsstring

text \<open>The value that \<open>processReceipt\<close> and \<open>processPdf\<close> resolve to.\<close>

record result =
  success :: bool
  message :: jsstring
  data :: "receiptData option"
  results :: "receiptData list option"

definition failure :: "jsstring \<Rightarrow> result" where
  "failure m = \<lparr>success = False, message = m, data = None, results = None\<rparr>"

text \<open>The uploaded \<open>File\<close>; its \<open>size\<close> is the number of its bytes.\<close>

record jsfile =
  file_name :: jsstring
  file_type :: jsstring
  file_bytes :: buffer

definition file_size :: "jsfile \<Rightarrow> nat" where
  "file_size f = length (file_bytes f)"

text \<open>A directory of the remote store, and the request of \<open>drive.files.create\<close>.\<close>

record folder =
  folder_id :: jsstring
  folder_name :: jsstring
  folder_parent :: jsstring

record upload =
  upload_name :: jsstring
  upload_parent :: jsstring
  upload_mimeType :: jsstring
  upload_body :: buffer

text \<open>
  What one \<open>fetch\<close> of the model endpoint answers: the status, the body as text, and what
  reading the body as the model's answer gives: \<open>res.json()\<close> fails (\<open>NotJson\<close>, with the
  engine's message), the answer has no text part or an empty one (\<open>NoText\<close>),
  \<open>JSON.parse(text)\<close> fails (\<open>BadText\<close>), or it gives the data.
\<close>

datatype payload = NotJson jsstring | NoText | BadText jsstring | Data parsed

record response =
  status :: nat
  body_text :: jsstring
  body_json :: payload

definition ok :: "response \<Rightarrow> bool" where
  "ok res = (200 \<le> status res \<and> status res \<le> 299)"

section \<open>The environment and the state\<close>

text \<open>
  Every call of a collaborator is recorded, in order. The remote services are outside
  the repository and are parameters: \<open>respond env n location\<close> is the answer to the
  \<open>n\<close>-th \<open>fetch\<close> of the run, \<open>create_error env up\<close> the message with which
  \<open>drive.files.create\<close> rejects (if it does), \<open>today env\<close> the value of
  \<open>new Date().toISOString().split('T')[0]\<close>, \<open>toLowerCase env\<close> the built-in of that name.
  \<open>pdf env bytes\<close> is the message of the error that \<open>pdf()\<close> throws, or what the page
  iterator that it returns gives, step by step: each step either yields a page image
  (\<open>Inr\<close>) or rejects with a message (\<open>Inl\<close>), and the end of the list is the end of the
  iteration. The directories of the store are part of the state, in the order in which a
  listing reports them.

  What the model takes for granted: the access token is obtained, \<open>fetch\<close> and the
  listings of the store answer (they do not reject), and a search of the store means what
  its text says (names and ids need no escaping).
\<close>

datatype event =
    GetAccessToken
  | Fetch jsstring
  | Wait nat
  | FindFolder jsstring jsstring
  | ListChildFolders jsstring
  | FilesCreate upload
  | PdfToImg buffer

record env =
  GOOGLE_LOCATION_var :: "jsstring option"
  GOOGLE_LOCATION_FALLBACK :: "jsstring option"
  ROOT_FOLDER_ID :: jsstring
  today :: jsstring
  toLowerCase :: "jsstring \<Rightarrow> jsstring"
  respond :: "nat \<Rightarrow> jsstring \<Rightarrow> response"
  create_error :: "upload \<Rightarrow> jsstring option"
  pdf :: "buffer \<Rightarrow> jsstring + (jsstring + buffer) list"

record world =
  events :: "event list"
  fetched :: nat
  folders :: "folder list"

definition log_event :: "event \<Rightarrow> world \<Rightarrow> world" where
  "log_event e w = w\<lparr>events := events w @ [e]\<rparr>"

definition GOOGLE_LOCATION :: "env \<Rightarrow> jsstring" where
  "GOOGLE_LOCATION env = orElse (GOOGLE_LOCATION_var env) (u ''asia-northeast1'')"

section \<open>The extraction call\<close>

definition maxAttempts :: nat where
  "maxAttempts = 2"

text \<open>The two \<open>filter\<close> calls that build \<open>locations\<close>: falsy entries are dropped, then
  every entry that is not the first of its value.\<close>

definition locations :: "env \<Rightarrow> jsstring list" where
  "locations env =
     (let arr = concat (map (\<lambda>v. case v of None \<Rightarrow> [] | Some s \<Rightarrow> if s = [] then [] else [s])
                  [Some (GOOGLE_LOCATION env), GOOGLE_LOCATION_FALLBACK env, Some (u ''us-central1'')])
      in map snd (filter (\<lambda>(i, v). indexOf arr v = int i) (enumerate 0 arr)))"

definition fetch :: "env \<Rightarrow> jsstring \<Rightarrow> world \<Rightarrow> response \<times> world" where
  "fetch env location w =
     (respond env (fetched w) location,
      w\<lparr>events := events w @ [Fetch location], fetched := Suc (fetched w)\<rparr>)"

text \<open>How the loop over the locations ends: with a \<open>return\<close>, with a \<open>throw\<close>, or by
  running out of locations, with the value of \<open>last429Text\<close>.\<close>

datatype loop_end = Returned parsed | Thrown exn | Exhausted "jsstring option"

fun locationLoop :: "env \<Rightarrow> jsstring list \<Rightarrow> jsstring option \<Rightarrow> world \<Rightarrow> loop_end \<times> world" where
  "locationLoop env [] last429Text w = (Exhausted last429Text, w)"
| "locationLoop env (location # rest) last429Text w =
     (let res = fst (fetch env location w); w1 = snd (fetch env location w) in
      if status res = 429 then locationLoop env rest (Some (body_text res)) w1
      else if \<not> ok res then
        (Thrown (Error (u ''Vertex AI error ('' @ showNumber (status res) @ u ''): '' @ body_text res)), w1)
      else (case body_json res of
              NotJson m \<Rightarrow> (Thrown (SyntaxError m), w1)
            | NoText \<Rightarrow> (Thrown (Error lit_ai_empty), w1)
            | BadText m \<Rightarrow> (Thrown (SyntaxError m), w1)
            | Data d \<Rightarrow> (Returned d, w1)))"

text \<open>The loop \<open>for (let attempt = 0; attempt < maxAttempts; attempt++)\<close>, over the values
  that \<open>attempt\<close> takes.\<close>

fun attemptLoop :: "env \<Rightarrow> jsstring list \<Rightarrow> nat list \<Rightarrow> world \<Rightarrow> (exn + parsed) \<times> world" where
  "attemptLoop env locs [] w = (Inl (Error lit_retry_limit), w)"
| "attemptLoop env locs (attempt # later) w =
     (case locationLoop env locs None w of
        (Returned d, w1) \<Rightarrow> (Inr d, w1)
      | (Thrown e, w1) \<Rightarrow> (Inl e, w1)
      | (Exhausted last429Text, w1) \<Rightarrow>
          if attempt < maxAttempts - 1
          then attemptLoop env locs later (log_event (Wait (800 * (attempt + 1))) w1)
          else (Inl (Error (u ''Vertex AI error (429): ''
                       @ nullish last429Text (u ''Resource exhausted''))), w1))"

definition callGemini :: "env \<Rightarrow> world \<Rightarrow> (exn + parsed) \<times> world" where
  "callGemini env w = attemptLoop env (locations env) [0..<maxAttempts] (log_event GetAccessToken w)"

section \<open>The directory index and the path resolver\<close>

text \<open>\<open>drive.files.list\<close> with a search for directories: the matches, at most
  \<open>pageSize\<close> of them (the program never asks for a second page).\<close>

definition files_list :: "world \<Rightarrow> (folder \<Rightarrow> bool) \<Rightarrow> nat \<Rightarrow> folder list" where
  "files_list w q pageSize = take pageSize (filter q (folders w))"

definition findFolder :: "jsstring \<Rightarrow> jsstring \<Rightarrow> world \<Rightarrow> jsstring option \<times> world" where
  "findFolder name parentId w =
     ((case files_list w (\<lambda>f. folder_name f = name \<and> folder_parent f = parentId) 1 of
         [] \<Rightarrow> None
       | f # _ \<Rightarrow> Some (folder_id f)),
      log_event (FindFolder name parentId) w)"

definition listChildFolders :: "jsstring \<Rightarrow> world \<Rightarrow> folder list \<times> world" where
  "listChildFolders parentId w =
     (files_list w (\<lambda>f. folder_parent f = parentId) 100, log_event (ListChildFolders parentId) w)"

text \<open>\<open>!id\<close> for the result of \<open>findFolder\<close> or of \<open>folderMap.get\<close>.\<close>

definition falsy :: "jsstring option \<Rightarrow> bool" where
  "falsy v = (case v of None \<Rightarrow> True | Some s \<Rightarrow> s = [])"

text \<open>The own properties of the object \<open>CATEGORY_FALLBACKS\<close>.\<close>

definition generic_candidates :: "jsstring list" where
  "generic_candidates = [lit_3_ryoshusho, lit_sonota, lit_7_sonota]"

definition CATEGORY_FALLBACKS :: "(jsstring \<times> jsstring list) list" where
  "CATEGORY_FALLBACKS =
     [(lit_kaigihi, [lit_kaigihi, lit_3_ryoshusho, lit_sonota, lit_7_sonota]),
      (lit_kotsuhi, [lit_kotsuhi, lit_3_ryoshusho, lit_sonota, lit_7_sonota]),
      (lit_settaikosaihi, [lit_settaikosaihi, lit_3_ryoshusho, lit_sonota, lit_7_sonota]),
      (lit_shomohinhi, [lit_shomohinhi, lit_3_ryoshusho, lit_sonota, lit_7_sonota]),
      (lit_tsushinhi, [lit_tsushinhi, lit_3_ryoshusho, lit_sonota, lit_7_sonota]),
      (lit_sonota, [lit_sonota, lit_7_sonota, lit_3_ryoshusho])]"

text \<open>
  \<open>CATEGORY_FALLBACKS\<close> is an object literal, so \<open>CATEGORY_FALLBACKS[category]\<close> also
  finds the properties that every object inherits from \<open>Object.prototype\<close>. Their values
  are functions (for \<open>__proto__\<close>, the prototype object): not null, and not iterable, so
  that the loop over them throws a TypeError (its message is given in the wording of the
  engine for the source as written).
\<close>

definition Object_prototype_keys :: "jsstring list" where
  "Object_prototype_keys =
     [u ''constructor'', u ''__defineGetter__'', u ''__defineSetter__'', u ''hasOwnProperty'',
      u ''__lookupGetter__'', u ''__lookupSetter__'', u ''isPrototypeOf'',
      u ''propertyIsEnumerable'', u ''toString'', u ''valueOf'', u ''__proto__'',
      u ''toLocaleString'']"

datatype property = Own "jsstring list" | Inherited | Undefined

definition CATEGORY_FALLBACKS_get :: "jsstring \<Rightarrow> property" where
  "CATEGORY_FALLBACKS_get category =
     (case map_of CATEGORY_FALLBACKS category of
        Some names \<Rightarrow> Own names
      | None \<Rightarrow> if category \<in> set Object_prototype_keys then Inherited else Undefined)"

text \<open>\<open>new Map(pairs)\<close>: a later pair replaces an earlier one with the same key.\<close>

definition Map_of_pairs :: "('k \<times> 'v) list \<Rightarrow> ('k \<rightharpoonup> 'v)" where
  "Map_of_pairs pairs = map_of (rev pairs)"

text \<open>The loop \<open>for (const name of candidates)\<close>.\<close>

fun candidateLoop :: "(jsstring \<rightharpoonup> jsstring) \<Rightarrow> jsstring list \<Rightarrow> jsstring option" where
  "candidateLoop folderMap [] = None"
| "candidateLoop folderMap (name # rest) =
     (if falsy (folderMap name) then candidateLoop folderMap rest else folderMap name)"

definition resolveCategoryFolder :: "jsstring \<Rightarrow> jsstring \<Rightarrow> world \<Rightarrow> (exn + jsstring) \<times> world" where
  "resolveCategoryFolder category parentId w =
     (let fs = fst (listChildFolders parentId w); w1 = snd (listChildFolders parentId w);
          folderMap = Map_of_pairs (map (\<lambda>f. (folder_name f, folder_id f)) fs)
      in case CATEGORY_FALLBACKS_get category of
           Inherited \<Rightarrow> (Inl (TypeError (u ''candidates is not iterable'')), w1)
         | prop \<Rightarrow>
            (let candidates = (case prop of Own names \<Rightarrow> names
                               | _ \<Rightarrow> [category, lit_3_ryoshusho, lit_sonota, lit_7_sonota])
             in case candidateLoop folderMap candidates of
                  Some i \<Rightarrow> (Inr i, w1)
                | None \<Rightarrow>
                   (let available = join (u '', '') (filter (\<lambda>n. n \<noteq> []) (map folder_name fs))
                    in (Inl (Error (lit_category_missing @ category @ lit_available @ available)), w1))))"

text \<open>
  The routing block, which \<open>processReceipt\<close> and \<open>processPdf\<close> both contain in the same
  words: \<open>const [yyyy, mm] = dateStr.split('-')\<close>, \<open>const year = parseInt(yyyy, 10)\<close>, and the
  \<open>if (year <= 2025)\<close> statement that sets \<open>parentFolderId\<close>.
\<close>

definition parentFolder :: "env \<Rightarrow> jsstring \<Rightarrow> world \<Rightarrow> (exn + jsstring) \<times> world" where
  "parentFolder env dateStr w =
     (case split 0x2D dateStr of
        [] \<Rightarrow> (Inl (TypeError (u ''Cannot read properties of undefined (reading ''
                    @ [0x27] @ u ''slice'' @ [0x27] @ u '')'')), w)
      | yyyy # parts \<Rightarrow>
         (let mm = (case parts of [] \<Rightarrow> None | m # _ \<Rightarrow> Some m);
              year = parseInt yyyy
          in if year_le year 2025 then
               (let oldFolder = fst (findFolder lit_legacy (ROOT_FOLDER_ID env) w);
                    w1 = snd (findFolder lit_legacy (ROOT_FOLDER_ID env) w)
                in if falsy oldFolder then (Inl (Error lit_legacy_missing), w1)
                   else (Inr (nullish oldFolder []), w1))
             else
               (let yy = slice_last2 yyyy;
                    yearMonthFolder = yy @ template mm;
                    monthFolderId = fst (findFolder yearMonthFolder (ROOT_FOLDER_ID env) w);
                    w1 = snd (findFolder yearMonthFolder (ROOT_FOLDER_ID env) w)
                in if falsy monthFolderId then (Inl (Error (lit_month_missing @ yearMonthFolder)), w1)
                   else (Inr (nullish monthFolderId []), w1))))"

section \<open>The filing orchestrator\<close>

definition files_create :: "env \<Rightarrow> upload \<Rightarrow> world \<Rightarrow> exn option \<times> world" where
  "files_create env up w =
     ((case create_error env up of None \<Rightarrow> None | Some m \<Rightarrow> Some (Error m)),
      log_event (FilesCreate up) w)"

text \<open>The body of the \<open>try\<close> block in the loop of \<open>processPdf\<close>, for one page.\<close>

definition processPdf_page :: "env \<Rightarrow> buffer \<Rightarrow> nat \<Rightarrow> world \<Rightarrow> (exn + receiptData) \<times> world" where
  "processPdf_page env pageBuffer pageNum w =
     (case callGemini env w of
        (Inl e, w1) \<Rightarrow> (Inl e, w1)
      | (Inr d, w1) \<Rightarrow>
         (let dateStr = orElse (data_date d) (today env);
              categoryFolder = orElse (data_category d) lit_sonota;
              newFileName = dateStr @ u ''_'' @ categoryFolder @ u ''_''
                 @ orElse (data_vendor d) lit_fumei @ u ''_p'' @ showNumber pageNum @ u ''.png''
          in case parentFolder env dateStr w1 of
               (Inl e, w2) \<Rightarrow> (Inl e, w2)
             | (Inr parentFolderId, w2) \<Rightarrow>
                (case resolveCategoryFolder categoryFolder parentFolderId w2 of
                   (Inl e, w3) \<Rightarrow> (Inl e, w3)
                 | (Inr targetFolderId, w3) \<Rightarrow>
                    (case files_create env
                            \<lparr>upload_name = newFileName, upload_parent = targetFolderId,
                             upload_mimeType = u ''image/png'', upload_body = pageBuffer\<rparr> w3 of
                       (Some e, w4) \<Rightarrow> (Inl e, w4)
                     | (None, w4) \<Rightarrow>
                        (Inr \<lparr>r_date = dateStr, r_amount = nullish (data_amount d) 0,
                              r_vendor = nullish (data_vendor d) lit_fumei,
                              r_category = categoryFolder, r_fileName = newFileName\<rparr>, w4)))))"

text \<open>
  The loop \<open>for await (const pageImage of pages)\<close> with its three variables \<open>pageNum\<close>,
  \<open>results\<close> and \<open>errors\<close>, over the steps of the page iterator. The \<open>try\<close> block is the
  body of the loop only: a step of the iterator that rejects is outside it, so the
  exception leaves the loop and \<open>processPdf\<close>, and the three variables are lost.
\<close>

fun pageLoop :: "env \<Rightarrow> (jsstring + buffer) list \<Rightarrow> nat \<Rightarrow> receiptData list \<Rightarrow> jsstring list
    \<Rightarrow> world \<Rightarrow> (exn + nat \<times> receiptData list \<times> jsstring list) \<times> world" where
  "pageLoop env [] pageNum rs errors w = (Inr (pageNum, rs, errors), w)"
| "pageLoop env (Inl m # rest) pageNum rs errors w = (Inl (Error m), w)"
| "pageLoop env (Inr pageImage # rest) pageNum rs errors w =
     (case processPdf_page env pageImage (pageNum + 1) w of
        (Inr r, w1) \<Rightarrow> pageLoop env rest (pageNum + 1) (rs @ [r]) errors w1
      | (Inl e, w1) \<Rightarrow>
          pageLoop env rest (pageNum + 1) rs
            (errors @ [lit_page @ showNumber (pageNum + 1) @ u '': '' @ exn_message e]) w1)"

definition processPdf :: "env \<Rightarrow> buffer \<Rightarrow> jsstring \<Rightarrow> world \<Rightarrow> (exn + result) \<times> world" where
  "processPdf env pdfBuffer originalName w =
     (case pdf env pdfBuffer of
        Inl m \<Rightarrow> (Inl (Error m), log_event (PdfToImg pdfBuffer) w)
      | Inr pages \<Rightarrow>
         (case pageLoop env pages 0 [] [] (log_event (PdfToImg pdfBuffer) w) of
            (Inl e, w1) \<Rightarrow> (Inl e, w1)
          | (Inr (pageNum, rs, errors), w1) \<Rightarrow>
              if length rs = 0 then (Inr (failure (lit_pdf_failed @ join (u '', '') errors)), w1)
              else (Inr \<lparr>success = True,
                         message = u ''PDF '' @ showNumber pageNum @ lit_pages_of
                            @ showNumber (length rs) @ lit_pages_saved
                            @ (if length errors > 0
                               then u '' ('' @ showNumber (length errors) @ lit_pages_failed else []),
                         data = None, results = Some rs\<rparr>, w1)))"

text \<open>The rest of the \<open>try\<close> block of \<open>processReceipt\<close>, after the PDF branch: one image.\<close>

definition processReceipt_image :: "env \<Rightarrow> jsfile \<Rightarrow> world \<Rightarrow> (exn + result) \<times> world" where
  "processReceipt_image env file w =
     (case callGemini env w of
        (Inl e, w1) \<Rightarrow> (Inl e, w1)
      | (Inr d, w1) \<Rightarrow>
         (let dateStr = orElse (data_date d) (today env);
              categoryFolder = orElse (data_category d) lit_sonota;
              newFileName = dateStr @ u ''_'' @ categoryFolder @ u ''_''
                 @ orElse (data_vendor d) lit_fumei @ u ''.jpg''
          in case parentFolder env dateStr w1 of
               (Inl e, w2) \<Rightarrow> (Inl e, w2)
             | (Inr parentFolderId, w2) \<Rightarrow>
                (case resolveCategoryFolder categoryFolder parentFolderId w2 of
                   (Inl e, w3) \<Rightarrow> (Inl e, w3)
                 | (Inr targetFolderId, w3) \<Rightarrow>
                    (case files_create env
                            \<lparr>upload_name = newFileName, upload_parent = targetFolderId,
                             upload_mimeType = orElse (Some (file_type file)) (u ''image/jpeg''),
                             upload_body = file_bytes file\<rparr> w3 of
                       (Some e, w4) \<Rightarrow> (Inl e, w4)
                     | (None, w4) \<Rightarrow>
                        (Inr \<lparr>success = True,
                              message = [0x300C] @ newFileName @ lit_saved,
                              data = Some \<lparr>r_date = dateStr, r_amount = nullish (data_amount d) 0,
                                           r_vendor = nullish (data_vendor d) lit_fumei,
                                           r_category = categoryFolder, r_fileName = newFileName\<rparr>,
                              results = None\<rparr>, w4)))))"

text \<open>The \<open>catch\<close> of \<open>processReceipt\<close>: every exception becomes a failure with its
  message.\<close>

definition catch_all :: "(exn + result) \<times> world \<Rightarrow> result \<times> world" where
  "catch_all r = (case r of (Inl e, w) \<Rightarrow> (failure (exn_message e), w) | (Inr v, w) \<Rightarrow> (v, w))"

definition isPdf :: "env \<Rightarrow> jsfile \<Rightarrow> bool" where
  "isPdf env file =
     (file_type file = u ''application/pdf'' \<or> endsWith (toLowerCase env (file_name file)) (u ''.pdf''))"

definition processReceipt :: "env \<Rightarrow> jsfile option \<Rightarrow> world \<Rightarrow> result \<times> world" where
  "processReceipt env formFile w =
     (case formFile of
        None \<Rightarrow> (failure lit_file_empty, w)
      | Some file \<Rightarrow>
         if file_size file = 0 then (failure lit_file_empty, w)
         else if isPdf env file
           then catch_all (processPdf env (file_bytes file) (file_name file) w)
           else catch_all (processReceipt_image env file w))"

section \<open>Notions used in the statements\<close>

text \<open>The responses to the fetches number \<open>n\<close>, \<open>n + 1\<close>, ... at the locations \<open>locs\<close>, in
  this order, all have status 429.\<close>

definition rate_limited :: "env \<Rightarrow> nat \<Rightarrow> jsstring list \<Rightarrow> bool" where
  "rate_limited env n locs = (\<forall>i<length locs. status (respond env (n + i) (locs ! i)) = 429)"

text \<open>The state after one fetch at each of \<open>locs\<close>.\<close>

definition fetches :: "jsstring list \<Rightarrow> world \<Rightarrow> world" where
  "fetches locs w = w\<lparr>events := events w @ map Fetch locs, fetched := fetched w + length locs\<rparr>"

text \<open>The value of \<open>last429Text\<close> after such a run of rate-limited fetches.\<close>

definition last429 :: "env \<Rightarrow> nat \<Rightarrow> jsstring list \<Rightarrow> jsstring option \<Rightarrow> jsstring option" where
  "last429 env n locs start =
     (if locs = [] then start else Some (body_text (respond env (n + length locs - 1) (last locs))))"

text \<open>What the body of the location loop does with a response whose status is not 429
  (lines 229 to 237).\<close>

definition answer :: "response \<Rightarrow> exn + parsed" where
  "answer res =
     (if \<not> ok res then
        Inl (Error (u ''Vertex AI error ('' @ showNumber (status res) @ u ''): '' @ body_text res))
      else (case body_json res of
              NotJson m \<Rightarrow> Inl (SyntaxError m)
            | NoText \<Rightarrow> Inl (Error lit_ai_empty)
            | BadText m \<Rightarrow> Inl (SyntaxError m)
            | Data d \<Rightarrow> Inr d))"

definition loop_end_of :: "exn + parsed \<Rightarrow> loop_end" where
  "loop_end_of r = (case r of Inl e \<Rightarrow> Thrown e | Inr d \<Rightarrow> Returned d)"

subsection \<open>Concrete inputs\<close>

text \<open>A response of the model, a rate-limited response, an environment with the two
  default regions, and some variations of its network.\<close>

definition taxi :: parsed where
  "taxi = \<lparr>data_date = Some (u ''2024-03-05''), data_amount = Some 1200,
            data_vendor = Some (u ''Example Taxi''), data_category = Some lit_kotsuhi\<rparr>"

definition busy :: response where
  "busy = \<lparr>status = 429, body_text = u ''quota'', body_json = NoText\<rparr>"

definition example_env :: env where
  "example_env = \<lparr>GOOGLE_LOCATION_var = None, GOOGLE_LOCATION_FALLBACK = None,
      ROOT_FOLDER_ID = u ''root'', today = u ''2026-01-15'',
      toLowerCase = map (\<lambda>c. if 65 \<le> c \<and> c \<le> 90 then c + 32 else c),
      respond = (\<lambda>n location. \<lparr>status = 200, body_text = [], body_json = Data taxi\<rparr>),
      create_error = (\<lambda>up. None),
      pdf = (\<lambda>bytes. Inr [])\<rparr>"

definition env_retry :: env where
  "env_retry = example_env\<lparr>respond := (\<lambda>n location. if n < 2 then busy
      else \<lparr>status = 200, body_text = [], body_json = Data taxi\<rparr>)\<rparr>"

definition env_exhausted :: env where
  "env_exhausted = example_env\<lparr>respond := (\<lambda>n location. busy\<lparr>body_text := u ''quota '' @ showNumber n\<rparr>)\<rparr>"

definition env_hard :: env where
  "env_hard = example_env\<lparr>respond := (\<lambda>n location.
      \<lparr>status = 500, body_text = u ''boom'', body_json = NoText\<rparr>)\<rparr>"

definition env_hard_retry :: env where
  "env_hard_retry = example_env\<lparr>respond := (\<lambda>n location. if n < 3 then busy
      else \<lparr>status = 503, body_text = u ''down'', body_json = NoText\<rparr>)\<rparr>"

definition empty_world :: world where
  "empty_world = \<lparr>events = [], fetched = 0, folders = []\<rparr>"

definition two_locations :: "jsstring list" where
  "two_locations = [u ''asia-northeast1'', u ''us-central1'']"

text \<open>The events that a step from \<open>w\<close> to \<open>w'\<close> has added, and the relation "the
  step only adds events, all of them in \<open>P\<close>, and leaves the directories as they are".\<close>

definition new_events :: "world \<Rightarrow> world \<Rightarrow> event list" where
  "new_events w w' = drop (length (events w)) (events w')"

definition extends :: "(event \<Rightarrow> bool) \<Rightarrow> world \<Rightarrow> world \<Rightarrow> bool" where
  "extends P w w' =
     (events w' = events w @ new_events w w' \<and> list_all P (new_events w w') \<and> folders w' = folders w)"

text \<open>Three uploads: an empty file, a PDF recognised by its name only, and an image.\<close>

definition empty_upload :: jsfile where
  "empty_upload = \<lparr>file_name = u ''receipt.jpg'', file_type = u ''image/jpeg'', file_bytes = []\<rparr>"

definition scan :: jsfile where
  "scan = \<lparr>file_name = u ''Scan.PDF'', file_type = [], file_bytes = [37, 80, 68, 70]\<rparr>"

definition photo :: jsfile where
  "photo = \<lparr>file_name = u ''receipt.jpg'', file_type = u ''image/jpeg'', file_bytes = [255, 216, 255]\<rparr>"

text \<open>The ISO calendar date \<open>YYYY-MM-DD\<close> of a year of at most four digits, a month and a
  day, in the words of the specification: zero-padded decimal numbers.\<close>

definition pad2 :: "nat \<Rightarrow> jsstring" where
  "pad2 n = [48 + n div 10 mod 10, 48 + n mod 10]"

definition pad4 :: "nat \<Rightarrow> jsstring" where
  "pad4 n = [48 + n div 1000 mod 10, 48 + n div 100 mod 10, 48 + n div 10 mod 10, 48 + n mod 10]"

definition isoDate :: "nat \<Rightarrow> nat \<Rightarrow> nat \<Rightarrow> jsstring" where
  "isoDate y m d = pad4 y @ [0x2D] @ pad2 m @ [0x2D] @ pad2 d"

text \<open>A store with the legacy directory and the directory of January 2026 under the root.\<close>

definition drive_world :: world where
  "drive_world = \<lparr>events = [], fetched = 0, folders =
     [\<lparr>folder_id = u ''old'', folder_name = lit_legacy, folder_parent = u ''root''\<rparr>,
      \<lparr>folder_id = u ''jan'', folder_name = u ''2601'', folder_parent = u ''root''\<rparr>,
      \<lparr>folder_id = u ''taxi-old'', folder_name = lit_kotsuhi, folder_parent = u ''old''\<rparr>,
      \<lparr>folder_id = u ''misc-old'', folder_name = lit_7_sonota, folder_parent = u ''old''\<rparr>,
      \<lparr>folder_id = u ''receipts-jan'', folder_name = lit_3_ryoshusho, folder_parent = u ''jan''\<rparr>]\<rparr>"

text \<open>A parent with 101 directories, of which the last is the only one that a candidate
  list names.\<close>

definition crowded_names :: "jsstring list" where
  "crowded_names = map (\<lambda>i. u ''dir'' @ showNumber i) [0..<100]"

definition crowded :: world where
  "crowded = \<lparr>events = [], fetched = 0, folders =
     map (\<lambda>n. \<lparr>folder_id = u ''id-'' @ n, folder_name = n, folder_parent = u ''parent''\<rparr>) crowded_names
     @ [\<lparr>folder_id = u ''target'', folder_name = lit_7_sonota, folder_parent = u ''parent''\<rparr>]\<rparr>"

text \<open>A response without any of the four fields, and three environments: the model
  answers without fields; a PDF of three pages where the second fetch of the run fails.\<close>

definition blank :: parsed where
  "blank = \<lparr>data_date = None, data_amount = None, data_vendor = None, data_category = None\<rparr>"

definition env_blank :: env where
  "env_blank = example_env\<lparr>respond := (\<lambda>n location.
      \<lparr>status = 200, body_text = [], body_json = Data blank\<rparr>)\<rparr>"

definition three_pages :: env where
  "three_pages = example_env\<lparr>respond := (\<lambda>n location.
       if n = 1 then \<lparr>status = 500, body_text = u ''boom'', body_json = NoText\<rparr>
       else \<lparr>status = 200, body_text = [], body_json = Data taxi\<rparr>),
     pdf := (\<lambda>bytes. Inr [Inr [1], Inr [2], Inr [3]])\<rparr>"

text \<open>A PDF of three pages whose second page the splitter fails to render, and a model that
  returns the example response with an empty vendor.\<close>

definition torn_pdf :: env where
  "torn_pdf = example_env\<lparr>pdf := (\<lambda>bytes. Inr [Inr [1], Inl (u ''render failed''), Inr [3]])\<rparr>"

definition env_no_vendor :: env where
  "env_no_vendor = example_env\<lparr>respond := (\<lambda>n location.
      \<lparr>status = 200, body_text = [], body_json = Data (taxi\<lparr>data_vendor := Some []\<rparr>)\<rparr>)\<rparr>"

text \<open>The number of extraction calls among some events: each call of \<open>callGemini\<close> starts
  by getting an access token.\<close>

definition extraction_calls :: "event list \<Rightarrow> nat" where
  "extraction_calls evs = length (filter (\<lambda>e. e = GetAccessToken) evs)"

text \<open>The record of the example response, filed as page \<open>n\<close> of a PDF.\<close>

definition taxi_page :: "nat \<Rightarrow> receiptData" where
  "taxi_page n = \<lparr>r_date = u ''2024-03-05'', r_amount = 1200, r_vendor = u ''Example Taxi'',
      r_category = lit_kotsuhi,
      r_fileName = u ''2024-03-05_'' @ lit_kotsuhi @ u ''_Example Taxi_p'' @ showNumber n @ u ''.png''\<rparr>"

section \<open>The fallback table\<close>

lemmas category_literals = lit_sonota_def lit_3_ryoshusho_def lit_7_sonota_def lit_kaigihi_def
  lit_kotsuhi_def lit_settaikosaihi_def lit_shomohinhi_def lit_tsushinhi_def

text \<open>
  C8, as stated, fails: the claim is that every entry of the table has a non-empty
  candidate list and that all these lists end with one and the same catch-all name. The
  list of "sonota" ends with "3-ryoshusho", the list of "kaigihi" with "7-sonota".
\<close>

theorem fallback_last_counterexample:
  "map_of CATEGORY_FALLBACKS lit_sonota = Some [lit_sonota, lit_7_sonota, lit_3_ryoshusho]
   \<and> last [lit_sonota, lit_7_sonota, lit_3_ryoshusho] = lit_3_ryoshusho
   \<and> map_of CATEGORY_FALLBACKS lit_kaigihi = Some [lit_kaigihi, lit_3_ryoshusho, lit_sonota, lit_7_sonota]
   \<and> last [lit_kaigihi, lit_3_ryoshusho, lit_sonota, lit_7_sonota] = lit_7_sonota
   \<and> lit_3_ryoshusho \<noteq> lit_7_sonota"
  by (simp add: CATEGORY_FALLBACKS_def category_literals)

text \<open>
  C8, amended: every entry of the table has a non-empty candidate list that contains the
  catch-all name "7-sonota"; that name is the last candidate of the five specific
  categories, and the list of the category "sonota" ends with "3-ryoshusho" instead.
\<close>

theorem fallback_lists:
  "\<forall>(k, names) \<in> set CATEGORY_FALLBACKS.
     names \<noteq> [] \<and> lit_7_sonota \<in> set names
     \<and> last names = (if k = lit_sonota then lit_3_ryoshusho else lit_7_sonota)"
  by (simp add: CATEGORY_FALLBACKS_def category_literals)

theorem fallback_lists_witness:
  "(lit_sonota, [lit_sonota, lit_7_sonota, lit_3_ryoshusho]) \<in> set CATEGORY_FALLBACKS
   \<and> [lit_sonota, lit_7_sonota, lit_3_ryoshusho] \<noteq> []
   \<and> lit_7_sonota \<in> set [lit_sonota, lit_7_sonota, lit_3_ryoshusho]
   \<and> last [lit_sonota, lit_7_sonota, lit_3_ryoshusho] = lit_3_ryoshusho"
proof -
  have m: "(lit_sonota, [lit_sonota, lit_7_sonota, lit_3_ryoshusho]) \<in> set CATEGORY_FALLBACKS"
    by (simp add: CATEGORY_FALLBACKS_def)
  from fallback_lists m show ?thesis by fastforce
qed

section \<open>Properties of the extraction call\<close>

subsection \<open>The loop over the locations\<close>

lemma rate_limited_Nil [simp]: "rate_limited env n []"
  by (simp add: rate_limited_def)

lemma rate_limited_Cons:
  "rate_limited env n (x # xs) \<longleftrightarrow> status (respond env n x) = 429 \<and> rate_limited env (Suc n) xs"
  unfolding rate_limited_def
proof (intro iffI conjI allI impI)
  assume h: "\<forall>i<length (x # xs). status (respond env (n + i) ((x # xs) ! i)) = 429"
  from h have "status (respond env (n + 0) ((x # xs) ! 0)) = 429" by (metis length_greater_0_conv list.distinct(1))
  then show "status (respond env n x) = 429" by simp
  fix i assume "i < length xs"
  with h have "status (respond env (n + Suc i) ((x # xs) ! Suc i)) = 429" by (metis Suc_less_eq length_Cons)
  then show "status (respond env (Suc n + i) (xs ! i)) = 429" by simp
next
  fix i assume h: "status (respond env n x) = 429 \<and> (\<forall>i<length xs. status (respond env (Suc n + i) (xs ! i)) = 429)"
    and i: "i < length (x # xs)"
  show "status (respond env (n + i) ((x # xs) ! i)) = 429"
  proof (cases i)
    case 0 with h show ?thesis by simp
  next
    case (Suc j) with h i show ?thesis by simp
  qed
qed

lemma fetches_Nil [simp]: "fetches [] w = w"
  by (simp add: fetches_def)

lemma fetches_Cons: "fetches (x # xs) w = fetches xs (snd (fetch env x w))"
  by (simp add: fetches_def fetch_def)

lemma fetched_fetches [simp]: "fetched (fetches locs w) = fetched w + length locs"
  by (simp add: fetches_def)

lemma fetched_log_event [simp]: "fetched (log_event e w) = fetched w"
  by (simp add: log_event_def)

lemma locationLoop_skip:
  "rate_limited env (fetched w) pre \<Longrightarrow>
   locationLoop env (pre @ rest) start w
     = locationLoop env rest (last429 env (fetched w) pre start) (fetches pre w)"
proof (induction pre arbitrary: start w)
  case Nil
  then show ?case by (simp add: last429_def)
next
  case (Cons x xs)
  from Cons.prems have s: "status (respond env (fetched w) x) = 429"
    and r: "rate_limited env (fetched (snd (fetch env x w))) xs"
    by (simp_all add: rate_limited_Cons fetch_def)
  have "locationLoop env ((x # xs) @ rest) start w
        = locationLoop env (xs @ rest) (Some (body_text (respond env (fetched w) x))) (snd (fetch env x w))"
    using s by (simp add: fetch_def Let_def)
  also have "\<dots> = locationLoop env rest
       (last429 env (fetched (snd (fetch env x w))) xs (Some (body_text (respond env (fetched w) x))))
       (fetches xs (snd (fetch env x w)))"
    by (rule Cons.IH [OF r])
  also have "last429 env (fetched (snd (fetch env x w))) xs (Some (body_text (respond env (fetched w) x)))
       = last429 env (fetched w) (x # xs) start"
    by (cases xs) (simp_all add: last429_def fetch_def)
  finally show ?case by (simp add: fetches_Cons [of x xs w env])
qed

lemma locationLoop_exhausted:
  "rate_limited env (fetched w) locs \<Longrightarrow>
   locationLoop env locs start w = (Exhausted (last429 env (fetched w) locs start), fetches locs w)"
  using locationLoop_skip [of env w locs "[]" start] by simp

lemma locationLoop_first_answer:
  assumes k: "k < length locs"
    and pre: "rate_limited env (fetched w) (take k locs)"
    and st: "status (respond env (fetched w + k) (locs ! k)) \<noteq> 429"
  shows "locationLoop env locs start w
         = (loop_end_of (answer (respond env (fetched w + k) (locs ! k))), fetches (take (Suc k) locs) w)"
proof -
  have split: "locs = take k locs @ (locs ! k # drop (Suc k) locs)"
    using k by (simp add: id_take_nth_drop [symmetric])
  have len: "length (take k locs) = k" using k by simp
  have "locationLoop env locs start w
        = locationLoop env (locs ! k # drop (Suc k) locs)
            (last429 env (fetched w) (take k locs) start) (fetches (take k locs) w)"
    using locationLoop_skip [OF pre, of "locs ! k # drop (Suc k) locs" start] split by simp
  also have "\<dots> = (loop_end_of (answer (respond env (fetched w + k) (locs ! k))),
                   snd (fetch env (locs ! k) (fetches (take k locs) w)))"
    using st len by (simp add: fetch_def Let_def answer_def loop_end_of_def split: payload.splits)
  also have "snd (fetch env (locs ! k) (fetches (take k locs) w)) = fetches (take (Suc k) locs) w"
    using k by (simp add: fetch_def fetches_def take_Suc_conv_app_nth)
  finally show ?thesis .
qed

lemma first_other_status:
  "rate_limited env n locs \<or>
   (\<exists>k<length locs. rate_limited env n (take k locs) \<and> status (respond env (n + k) (locs ! k)) \<noteq> 429)"
proof (induction locs arbitrary: n)
  case Nil
  then show ?case by simp
next
  case (Cons x xs)
  show ?case
  proof (cases "status (respond env n x) = 429")
    case False
    then have "0 < length (x # xs) \<and> rate_limited env n (take 0 (x # xs))
        \<and> status (respond env (n + 0) ((x # xs) ! 0)) \<noteq> 429" by simp
    then show ?thesis by blast
  next
    case True
    from Cons.IH [of "Suc n"] show ?thesis
    proof
      assume "rate_limited env (Suc n) xs"
      with True show ?thesis by (simp add: rate_limited_Cons)
    next
      assume "\<exists>k<length xs. rate_limited env (Suc n) (take k xs) \<and> status (respond env (Suc n + k) (xs ! k)) \<noteq> 429"
      then obtain k where k: "k < length xs" "rate_limited env (Suc n) (take k xs)"
        "status (respond env (Suc n + k) (xs ! k)) \<noteq> 429" by blast
      with True have "Suc k < length (x # xs) \<and> rate_limited env n (take (Suc k) (x # xs))
        \<and> status (respond env (n + Suc k) ((x # xs) ! Suc k)) \<noteq> 429"
        by (simp add: rate_limited_Cons)
      then show ?thesis by blast
    qed
  qed
qed

subsection \<open>The two attempts\<close>

lemma locations_nonempty: "locations env \<noteq> []"
  by (simp add: locations_def Let_def u_def split: option.splits)

lemma attempts_list: "[0..<maxAttempts] = [0, 1]"
  by (simp add: maxAttempts_def upt_rec)

lemma callGemini_two_attempts:
  "callGemini env w =
     (case locationLoop env (locations env) None (log_event GetAccessToken w) of
        (Returned d, w1) \<Rightarrow> (Inr d, w1)
      | (Thrown e, w1) \<Rightarrow> (Inl e, w1)
      | (Exhausted t1, w1) \<Rightarrow>
         (case locationLoop env (locations env) None (log_event (Wait 800) w1) of
            (Returned d, w2) \<Rightarrow> (Inr d, w2)
          | (Thrown e, w2) \<Rightarrow> (Inl e, w2)
          | (Exhausted t2, w2) \<Rightarrow>
             (Inl (Error (u ''Vertex AI error (429): '' @ nullish t2 (u ''Resource exhausted''))), w2)))"
  unfolding callGemini_def attempts_list
  by (simp add: maxAttempts_def split: prod.splits loop_end.splits)

lemma callGemini_first_attempt:
  assumes "k < length (locations env)"
    and "rate_limited env (fetched w) (take k (locations env))"
    and "status (respond env (fetched w + k) (locations env ! k)) \<noteq> 429"
  shows "callGemini env w
         = (answer (respond env (fetched w + k) (locations env ! k)),
            fetches (take (Suc k) (locations env)) (log_event GetAccessToken w))"
  using locationLoop_first_answer [of k "locations env" env "log_event GetAccessToken w" None] assms
  by (simp add: callGemini_two_attempts loop_end_of_def split: sum.splits)

lemma callGemini_second_attempt:
  assumes "rate_limited env (fetched w) (locations env)"
    and "k < length (locations env)"
    and "rate_limited env (fetched w + length (locations env)) (take k (locations env))"
    and "status (respond env (fetched w + length (locations env) + k) (locations env ! k)) \<noteq> 429"
  shows "callGemini env w
         = (answer (respond env (fetched w + length (locations env) + k) (locations env ! k)),
            fetches (take (Suc k) (locations env))
              (log_event (Wait 800) (fetches (locations env) (log_event GetAccessToken w))))"
  using locationLoop_exhausted [of env "log_event GetAccessToken w" "locations env" None]
    locationLoop_first_answer [of k "locations env" env
       "log_event (Wait 800) (fetches (locations env) (log_event GetAccessToken w))" None] assms
  by (simp add: callGemini_two_attempts loop_end_of_def split: sum.splits)

lemma callGemini_exhausted:
  assumes "rate_limited env (fetched w) (locations env)"
    and "rate_limited env (fetched w + length (locations env)) (locations env)"
  shows "callGemini env w
         = (Inl (Error (u ''Vertex AI error (429): ''
               @ body_text (respond env (fetched w + 2 * length (locations env) - 1) (last (locations env))))),
            fetches (locations env)
              (log_event (Wait 800) (fetches (locations env) (log_event GetAccessToken w))))"
  using locationLoop_exhausted [of env "log_event GetAccessToken w" "locations env" None]
    locationLoop_exhausted [of env
       "log_event (Wait 800) (fetches (locations env) (log_event GetAccessToken w))" "locations env" None]
    assms locations_nonempty [of env]
  by (simp add: callGemini_two_attempts last429_def nullish_def mult_2 add.assoc)

lemma world_after_first:
  "fetches ls (log_event GetAccessToken w)
   = w\<lparr>events := events w @ GetAccessToken # map Fetch ls, fetched := fetched w + length ls\<rparr>"
  by (simp add: fetches_def log_event_def)

lemma world_after_second:
  "fetches ls (log_event (Wait ms) (fetches locs (log_event GetAccessToken w)))
   = w\<lparr>events := events w @ GetAccessToken # map Fetch locs @ Wait ms # map Fetch ls,
        fetched := fetched w + length locs + length ls\<rparr>"
  by (simp add: fetches_def log_event_def)

subsection \<open>Numbers in messages\<close>

lemma digitsValue_snoc: "digitsValue (ds @ [c]) = 10 * digitsValue ds + (int c - 48)"
  by (simp add: digitsValue_def)

lemma digitsValue_showNumber: "digitsValue (showNumber n) = int n"
proof (induction n rule: showNumber.induct)
  case (1 n)
  show ?case
  proof (cases "n < 10")
    case True
    then show ?thesis by (simp add: showNumber.simps [of n] digitsValue_def)
  next
    case False
    with 1 have "digitsValue (showNumber (n div 10)) = int (n div 10)" by simp
    with False show ?thesis
      by (simp add: showNumber.simps [of n] digitsValue_snoc zdiv_int zmod_int) 
  qed
qed

lemma showNumber_digits: "c \<in> set (showNumber n) \<Longrightarrow> isDigit c"
proof (induction n rule: showNumber.induct)
  case (1 n)
  show ?case
  proof (cases "n < 10")
    case True
    with 1(2) show ?thesis by (simp add: showNumber.simps [of n] isDigit_def)
  next
    case False
    with 1 show ?thesis by (auto simp add: showNumber.simps [of n] isDigit_def)
  qed
qed

lemma showNumber_inj:
  assumes "showNumber m = showNumber n"
  shows "m = n"
proof -
  have "int m = digitsValue (showNumber m)" by (simp only: digitsValue_showNumber)
  also have "\<dots> = digitsValue (showNumber n)" by (simp only: assms)
  also have "\<dots> = int n" by (simp only: digitsValue_showNumber)
  finally show ?thesis by simp
qed

lemma showNumber_429: "showNumber 429 = u ''429''"
  by code_simp

lemma takeWhile_digits:
  "\<forall>c\<in>set ds. isDigit c \<Longrightarrow> \<not> isDigit y \<Longrightarrow> takeWhile isDigit (ds @ y # r) = ds"
  by (induction ds) simp_all

lemma answer_not_rate_limit:
  assumes "status res \<noteq> 429"
  shows "answer res \<noteq> Inl (Error (u ''Vertex AI error (429): '' @ t))"
proof
  assume eq: "answer res = Inl (Error (u ''Vertex AI error (429): '' @ t))"
  show False
  proof (cases "ok res")
    case True
    with eq show False
      by (simp add: answer_def u_def lit_ai_empty_def split: payload.splits)
  next
    case False
    with eq have "showNumber (status res) @ u ''): '' @ body_text res = showNumber 429 @ u ''): '' @ t"
      by (simp add: answer_def u_def showNumber_429)
    then have "takeWhile isDigit (showNumber (status res) @ u ''): '' @ body_text res)
             = takeWhile isDigit (showNumber 429 @ u ''): '' @ t)" by simp
    moreover have "\<not> isDigit 41" by (simp add: isDigit_def)
    ultimately have "showNumber (status res) = showNumber 429"
      by (simp add: takeWhile_digits showNumber_digits u_def)
    with assms showNumber_inj show False by blast
  qed
qed

subsection \<open>The example environments\<close>

lemma locations_example [simp]:
  "locations (example_env\<lparr>respond := f\<rparr>) = [u ''asia-northeast1'', u ''us-central1'']"
  by (simp add: locations_def example_env_def GOOGLE_LOCATION_def orElse_def u_def)

lemma locations_two: "two_locations = locations (example_env\<lparr>respond := f\<rparr>)"
  by (simp add: two_locations_def)

lemma two_locations_simps:
  "length two_locations = 2" "two_locations ! 0 = u ''asia-northeast1''"
  "two_locations ! 1 = u ''us-central1''" "last two_locations = u ''us-central1''"
  "take 0 two_locations = []" "take 1 two_locations = [u ''asia-northeast1'']"
  "take 2 two_locations = two_locations"
  by (simp_all add: two_locations_def)

lemma env_retry_rate_limited: "rate_limited env_retry 0 two_locations"
  by (simp add: rate_limited_Cons env_retry_def busy_def two_locations_def)

lemma env_exhausted_rate_limited: "rate_limited env_exhausted n two_locations"
  by (simp add: rate_limited_Cons env_exhausted_def busy_def two_locations_def)

subsection \<open>Rate limits\<close>

lemma retry_after_rate_limit:
  assumes locs: "locs = locations env"
    and first: "rate_limited env (fetched w) locs"
  shows "(k < length locs \<and> rate_limited env (fetched w + length locs) (take k locs)
           \<and> ok (respond env (fetched w + length locs + k) (locs ! k))
           \<and> body_json (respond env (fetched w + length locs + k) (locs ! k)) = Data d
          \<longrightarrow> callGemini env w
              = (Inr d, w\<lparr>events := events w @ GetAccessToken # map Fetch locs
                                 @ Wait 800 # map Fetch (take (Suc k) locs),
                          fetched := fetched w + length locs + Suc k\<rparr>))
       \<and> (rate_limited env (fetched w + length locs) locs
          \<longrightarrow> callGemini env w
              = (Inl (Error (u ''Vertex AI error (429): ''
                    @ body_text (respond env (fetched w + 2 * length locs - 1) (last locs)))),
                 w\<lparr>events := events w @ GetAccessToken # map Fetch locs @ Wait 800 # map Fetch locs,
                   fetched := fetched w + length locs + length locs\<rparr>))"
proof (intro conjI impI)
  assume h: "k < length locs \<and> rate_limited env (fetched w + length locs) (take k locs)
           \<and> ok (respond env (fetched w + length locs + k) (locs ! k))
           \<and> body_json (respond env (fetched w + length locs + k) (locs ! k)) = Data d"
  then have "status (respond env (fetched w + length locs + k) (locs ! k)) \<noteq> 429"
    by (auto simp: ok_def)
  with h first locs
  have "callGemini env w
         = (answer (respond env (fetched w + length locs + k) (locs ! k)),
            fetches (take (Suc k) locs) (log_event (Wait 800) (fetches locs (log_event GetAccessToken w))))"
    using callGemini_second_attempt [of env w k] by simp
  moreover have "answer (respond env (fetched w + length locs + k) (locs ! k)) = Inr d"
    using h by (simp add: answer_def)
  moreover have "length (take (Suc k) locs) = Suc k" using h by simp
  ultimately show "callGemini env w
              = (Inr d, w\<lparr>events := events w @ GetAccessToken # map Fetch locs
                                 @ Wait 800 # map Fetch (take (Suc k) locs),
                          fetched := fetched w + length locs + Suc k\<rparr>)"
    by (simp only: world_after_second)
next
  assume "rate_limited env (fetched w + length locs) locs"
  with first locs show "callGemini env w
              = (Inl (Error (u ''Vertex AI error (429): ''
                    @ body_text (respond env (fetched w + 2 * length locs - 1) (last locs)))),
                 w\<lparr>events := events w @ GetAccessToken # map Fetch locs @ Wait 800 # map Fetch locs,
                   fetched := fetched w + length locs + length locs\<rparr>)"
    using callGemini_exhausted [of env w] by (simp only: world_after_second)
qed

lemma rate_limit_error_only_when_exhausted:
  assumes locs: "locs = locations env"
    and err: "fst (callGemini env w) = Inl (Error (u ''Vertex AI error (429): '' @ t))"
  shows "rate_limited env (fetched w) locs \<and> rate_limited env (fetched w + length locs) locs"
proof -
  have one: "rate_limited env (fetched w) locs"
  proof (rule ccontr)
    assume "\<not> rate_limited env (fetched w) locs"
    with first_other_status [of env "fetched w" locs]
    obtain k where k: "k < length locs" "rate_limited env (fetched w) (take k locs)"
      "status (respond env (fetched w + k) (locs ! k)) \<noteq> 429" by blast
    with locs have "fst (callGemini env w) = answer (respond env (fetched w + k) (locs ! k))"
      using callGemini_first_attempt [of k env w] by simp
    with err answer_not_rate_limit [OF k(3)] show False by simp
  qed
  have two: "rate_limited env (fetched w + length locs) locs"
  proof (rule ccontr)
    assume "\<not> rate_limited env (fetched w + length locs) locs"
    with first_other_status [of env "fetched w + length locs" locs]
    obtain k where k: "k < length locs" "rate_limited env (fetched w + length locs) (take k locs)"
      "status (respond env (fetched w + length locs + k) (locs ! k)) \<noteq> 429" by blast
    with locs one have "fst (callGemini env w) = answer (respond env (fetched w + length locs + k) (locs ! k))"
      using callGemini_second_attempt [of env w k] by simp
    with err answer_not_rate_limit [OF k(3)] show False by simp
  qed
  from one two show ?thesis ..
qed

text \<open>
  C3: when every location answers 429 on the first attempt and, on the second attempt,
  the locations before the \<open>k\<close>-th answer 429 and the \<open>k\<close>-th answers with a success
  whose text parses to \<open>d\<close>, the call returns \<open>d\<close>; it has fetched every location once,
  waited 800 ms (the delay \<open>800 * (attempt + 1)\<close> of attempt 0) and fetched again from the
  first location. When the second attempt is rate-limited everywhere too, the call throws
  the error of status 429 with the body of the last response. That error is thrown only
  so: if the call throws it, both attempts were rate-limited at every location.
\<close>

theorem rate_limit_retry:
  assumes locs: "locs = locations env"
  shows "(rate_limited env (fetched w) locs \<and> k < length locs
           \<and> rate_limited env (fetched w + length locs) (take k locs)
           \<and> ok (respond env (fetched w + length locs + k) (locs ! k))
           \<and> body_json (respond env (fetched w + length locs + k) (locs ! k)) = Data d
          \<longrightarrow> callGemini env w
              = (Inr d, w\<lparr>events := events w @ GetAccessToken # map Fetch locs
                                 @ Wait 800 # map Fetch (take (Suc k) locs),
                          fetched := fetched w + length locs + Suc k\<rparr>))
       \<and> (rate_limited env (fetched w) locs \<and> rate_limited env (fetched w + length locs) locs
          \<longrightarrow> callGemini env w
              = (Inl (Error (u ''Vertex AI error (429): ''
                    @ body_text (respond env (fetched w + 2 * length locs - 1) (last locs)))),
                 w\<lparr>events := events w @ GetAccessToken # map Fetch locs @ Wait 800 # map Fetch locs,
                   fetched := fetched w + length locs + length locs\<rparr>))
       \<and> (fst (callGemini env w) = Inl (Error (u ''Vertex AI error (429): '' @ t))
          \<longrightarrow> rate_limited env (fetched w) locs \<and> rate_limited env (fetched w + length locs) locs)"
  using retry_after_rate_limit [OF locs, of w k d] rate_limit_error_only_when_exhausted [OF locs, of w t]
  by blast

theorem rate_limit_retry_witness:
  "rate_limited env_retry 0 two_locations
   \<and> callGemini env_retry empty_world
       = (Inr taxi, \<lparr>events = [GetAccessToken, Fetch (u ''asia-northeast1''), Fetch (u ''us-central1''),
                              Wait 800, Fetch (u ''asia-northeast1'')],
                    fetched = 3, folders = []\<rparr>)
   \<and> rate_limited env_exhausted 0 two_locations
   \<and> rate_limited env_exhausted 2 two_locations
   \<and> callGemini env_exhausted empty_world
       = (Inl (Error (u ''Vertex AI error (429): '' @ u ''quota 3'')),
          \<lparr>events = [GetAccessToken, Fetch (u ''asia-northeast1''), Fetch (u ''us-central1''),
                     Wait 800, Fetch (u ''asia-northeast1''), Fetch (u ''us-central1'')],
            fetched = 4, folders = []\<rparr>)"
proof -
  have l1: "two_locations = locations env_retry"
    unfolding env_retry_def by (rule locations_two)
  have l2: "two_locations = locations env_exhausted"
    unfolding env_exhausted_def by (rule locations_two)
  have f0: "fetched empty_world = 0" by (simp add: empty_world_def)
  have ante1: "rate_limited env_retry (fetched empty_world) two_locations \<and> 0 < length two_locations
           \<and> rate_limited env_retry (fetched empty_world + length two_locations) (take 0 two_locations)
           \<and> ok (respond env_retry (fetched empty_world + length two_locations + 0) (two_locations ! 0))
           \<and> body_json (respond env_retry (fetched empty_world + length two_locations + 0) (two_locations ! 0)) = Data taxi"
    using env_retry_rate_limited by (simp add: f0 two_locations_simps env_retry_def ok_def)
  have a: "callGemini env_retry empty_world
       = (Inr taxi, \<lparr>events = [GetAccessToken, Fetch (u ''asia-northeast1''), Fetch (u ''us-central1''),
                              Wait 800, Fetch (u ''asia-northeast1'')],
                    fetched = 3, folders = []\<rparr>)"
    using rate_limit_retry [OF l1, of empty_world 0 taxi, THEN conjunct1, THEN mp, OF ante1]
    by (simp add: empty_world_def two_locations_def)
  have ante2: "rate_limited env_exhausted (fetched empty_world) two_locations
     \<and> rate_limited env_exhausted (fetched empty_world + length two_locations) two_locations"
    using env_exhausted_rate_limited by simp
  have s: "showNumber 3 = u ''3''" by code_simp
  have body: "body_text (respond env_exhausted (fetched empty_world + 2 * length two_locations - 1)
                 (last two_locations)) = u ''quota 3''"
    by (simp add: f0 two_locations_simps env_exhausted_def s u_def)
  have b: "callGemini env_exhausted empty_world
       = (Inl (Error (u ''Vertex AI error (429): '' @ u ''quota 3'')),
          \<lparr>events = [GetAccessToken, Fetch (u ''asia-northeast1''), Fetch (u ''us-central1''),
                     Wait 800, Fetch (u ''asia-northeast1''), Fetch (u ''us-central1'')],
            fetched = 4, folders = []\<rparr>)"
    using rate_limit_retry [OF l2, of empty_world, THEN conjunct2, THEN conjunct1, THEN mp, OF ante2]
    by (simp only: body) (simp add: empty_world_def two_locations_def)
  from a b env_retry_rate_limited env_exhausted_rate_limited [of 0] env_exhausted_rate_limited [of 2] show ?thesis by (intro conjI)
qed

subsection \<open>Hard errors\<close>

text \<open>
  C4: in attempt \<open>a\<close>, when all earlier attempts were rate-limited everywhere and the
  locations before the \<open>k\<close>-th were rate-limited, a response of the \<open>k\<close>-th location whose
  status is neither 429 nor a success makes the call throw at once, with the status and
  the body in the message: the fetch of that location is the last event, so no later
  location is tried and no further attempt is made.
\<close>

theorem hard_error_is_immediate:
  assumes locs: "locs = locations env"
    and a: "a < maxAttempts"
    and k: "k < length locs"
    and earlier: "\<forall>j<a. rate_limited env (fetched w + j * length locs) locs"
    and pre: "rate_limited env (fetched w + a * length locs) (take k locs)"
    and res: "res = respond env (fetched w + a * length locs + k) (locs ! k)"
    and hard: "status res \<noteq> 429" "\<not> ok res"
  shows "callGemini env w
         = (Inl (Error (u ''Vertex AI error ('' @ showNumber (status res) @ u ''): '' @ body_text res)),
            w\<lparr>events := events w @ GetAccessToken
                  # concat (map (\<lambda>j. map Fetch locs @ [Wait (800 * (j + 1))]) [0..<a])
                  @ map Fetch (take (Suc k) locs),
              fetched := fetched w + a * length locs + Suc k\<rparr>)"
proof -
  have ans: "answer res
      = Inl (Error (u ''Vertex AI error ('' @ showNumber (status res) @ u ''): '' @ body_text res))"
    using hard by (simp add: answer_def)
  have len: "length (take (Suc k) locs) = Suc k" using k by simp
  from a have "a = 0 \<or> a = 1" by (auto simp: maxAttempts_def)
  then show ?thesis
  proof
    assume a0: "a = 0"
    with locs k pre res hard
    have "callGemini env w = (answer res, fetches (take (Suc k) locs) (log_event GetAccessToken w))"
      using callGemini_first_attempt [of k env w] by simp
    with ans len a0 show ?thesis by (simp add: world_after_first)
  next
    assume a1: "a = 1"
    with earlier have "rate_limited env (fetched w) locs" by simp
    with a1 locs k pre res hard
    have "callGemini env w = (answer res,
        fetches (take (Suc k) locs) (log_event (Wait 800) (fetches locs (log_event GetAccessToken w))))"
      using callGemini_second_attempt [of env w k] by simp
    with ans len a1 show ?thesis by (simp add: world_after_second)
  qed
qed

theorem hard_error_is_immediate_witness:
  "callGemini env_hard empty_world
   = (Inl (Error (u ''Vertex AI error ('' @ u ''500'' @ u ''): '' @ u ''boom'')),
      \<lparr>events = [GetAccessToken, Fetch (u ''asia-northeast1'')], fetched = 1, folders = []\<rparr>)
   \<and> callGemini env_hard_retry empty_world
   = (Inl (Error (u ''Vertex AI error ('' @ u ''503'' @ u ''): '' @ u ''down'')),
      \<lparr>events = [GetAccessToken, Fetch (u ''asia-northeast1''), Fetch (u ''us-central1''),
           Wait 800, Fetch (u ''asia-northeast1''), Fetch (u ''us-central1'')],
        fetched = 4, folders = []\<rparr>)"
proof -
  have l0: "two_locations = locations env_hard"
    unfolding env_hard_def by (rule locations_two)
  have l: "two_locations = locations env_hard_retry"
    unfolding env_hard_retry_def by (rule locations_two)
  have f0: "fetched empty_world = 0" by (simp add: empty_world_def)
  have s0: "showNumber 500 = u ''500''" by code_simp
  have s: "showNumber 503 = u ''503''" by code_simp
  have a0: "(0::nat) < maxAttempts" and a: "(1::nat) < maxAttempts" by (simp_all add: maxAttempts_def)
  have k0: "(0::nat) < length two_locations" and k: "(1::nat) < length two_locations"
    by (simp_all add: two_locations_simps)
  have earlier0: "\<forall>j<0::nat. rate_limited env_hard (fetched empty_world + j * length two_locations) two_locations"
    by simp
  have pre0: "rate_limited env_hard (fetched empty_world + 0 * length two_locations) (take 0 two_locations)"
    by simp
  have res0: "\<lparr>status = 500, body_text = u ''boom'', body_json = NoText\<rparr>
      = respond env_hard (fetched empty_world + 0 * length two_locations + 0) (two_locations ! 0)"
    by (simp add: env_hard_def)
  have hard0: "status \<lparr>status = 500, body_text = u ''boom'', body_json = NoText\<rparr> \<noteq> 429"
    "\<not> ok \<lparr>status = 500, body_text = u ''boom'', body_json = NoText\<rparr>"
    by (simp_all add: ok_def)
  have earlier: "\<forall>j<1::nat. rate_limited env_hard_retry (fetched empty_world + j * length two_locations) two_locations"
    by (simp add: rate_limited_Cons env_hard_retry_def busy_def two_locations_def f0)
  have pre: "rate_limited env_hard_retry (fetched empty_world + 1 * length two_locations) (take 1 two_locations)"
    by (simp add: rate_limited_Cons env_hard_retry_def busy_def two_locations_def f0)
  have res: "\<lparr>status = 503, body_text = u ''down'', body_json = NoText\<rparr>
      = respond env_hard_retry (fetched empty_world + 1 * length two_locations + 1) (two_locations ! 1)"
    by (simp add: env_hard_retry_def two_locations_simps f0)
  have hard: "status \<lparr>status = 503, body_text = u ''down'', body_json = NoText\<rparr> \<noteq> 429"
    "\<not> ok \<lparr>status = 503, body_text = u ''down'', body_json = NoText\<rparr>"
    by (simp_all add: ok_def)
  have first: "callGemini env_hard empty_world
   = (Inl (Error (u ''Vertex AI error ('' @ u ''500'' @ u ''): '' @ u ''boom'')),
      \<lparr>events = [GetAccessToken, Fetch (u ''asia-northeast1'')], fetched = 1, folders = []\<rparr>)"
    using hard_error_is_immediate [OF l0 a0 k0 earlier0 pre0 res0 hard0]
    by (simp add: s0 empty_world_def two_locations_def)
  have second: "callGemini env_hard_retry empty_world
   = (Inl (Error (u ''Vertex AI error ('' @ u ''503'' @ u ''): '' @ u ''down'')),
      \<lparr>events = [GetAccessToken, Fetch (u ''asia-northeast1''), Fetch (u ''us-central1''),
           Wait 800, Fetch (u ''asia-northeast1''), Fetch (u ''us-central1'')],
        fetched = 4, folders = []\<rparr>)"
    using hard_error_is_immediate [OF l a k earlier pre res hard]
    by (simp add: s empty_world_def two_locations_def)
  from first second show ?thesis ..
qed

section \<open>What the operations record\<close>

lemma extendsI:
  "events w' = events w @ evs \<Longrightarrow> list_all P evs \<Longrightarrow> folders w' = folders w \<Longrightarrow> extends P w w'"
  by (simp add: extends_def new_events_def)

lemma new_eventsI: "events w' = events w @ evs \<Longrightarrow> new_events w w' = evs"
  by (simp add: new_events_def)

lemma extends_refl [simp]: "extends P w w"
  by (simp add: extends_def new_events_def)

lemma extends_trans:
  assumes "extends P w w1" and "extends P w1 w2"
  shows "extends P w w2"
proof -
  from assms have e1: "events w1 = events w @ new_events w w1" and e2: "events w2 = events w1 @ new_events w1 w2"
    and p: "list_all P (new_events w w1)" "list_all P (new_events w1 w2)"
    and f: "folders w2 = folders w" by (simp_all add: extends_def)
  from e1 e2 have "events w2 = events w @ (new_events w w1 @ new_events w1 w2)" by simp
  with p f show ?thesis by (intro extendsI [where evs = "new_events w w1 @ new_events w1 w2"]) simp_all
qed

lemma extends_mono: "extends P w w' \<Longrightarrow> (\<And>e. P e \<Longrightarrow> Q e) \<Longrightarrow> extends Q w w'"
  by (auto simp: extends_def list_all_iff)

lemma new_events_trans:
  assumes "extends P w w1" and "extends Q w1 w2"
  shows "new_events w w2 = new_events w w1 @ new_events w1 w2"
proof -
  from assms have e1: "events w1 = events w @ new_events w w1" and e2: "events w2 = events w1 @ new_events w1 w2"
    by (simp_all add: extends_def)
  then have "events w2 = events w @ (new_events w w1 @ new_events w1 w2)" by simp
  then show ?thesis by (rule new_eventsI)
qed

lemma extends_log_event: "P e \<Longrightarrow> extends P w (log_event e w)"
  by (rule extendsI [where evs = "[e]"]) (simp_all add: log_event_def)

lemma extends_fetch: "P (Fetch l) \<Longrightarrow> extends P w (snd (fetch env l w))"
  by (rule extendsI [where evs = "[Fetch l]"]) (simp_all add: fetch_def)

lemma extends_locationLoop:
  assumes "\<And>l. P (Fetch l)"
  shows "extends P w (snd (locationLoop env locs t w))"
proof (induction locs arbitrary: t w)
  case Nil
  show ?case by simp
next
  case (Cons x xs)
  have one: "extends P w (snd (fetch env x w))" by (rule extends_fetch) (rule assms)
  show ?case
  proof (cases "status (fst (fetch env x w)) = 429")
    case True
    then have "snd (locationLoop env (x # xs) t w)
      = snd (locationLoop env xs (Some (body_text (fst (fetch env x w)))) (snd (fetch env x w)))"
      by (simp add: Let_def)
    with extends_trans [OF one Cons.IH] show ?thesis by simp
  next
    case False
    then have "snd (locationLoop env (x # xs) t w) = snd (fetch env x w)"
      by (simp add: Let_def split: payload.splits)
    with one show ?thesis by simp
  qed
qed

lemma extends_attemptLoop:
  assumes "\<And>l. P (Fetch l)" and "\<And>n. P (Wait n)"
  shows "extends P w (snd (attemptLoop env locs as w))"
proof (induction as arbitrary: w)
  case Nil
  show ?case by simp
next
  case (Cons a as)
  obtain r w1 where l: "locationLoop env locs None w = (r, w1)" by (cases "locationLoop env locs None w")
  then have one: "extends P w w1" using extends_locationLoop [of P w env locs None] assms(1) by simp
  show ?case
  proof (cases r)
    case (Exhausted t)
    show ?thesis
    proof (cases "a < maxAttempts - 1")
      case True
      have "extends P w1 (log_event (Wait (800 * (a + 1))) w1)" by (rule extends_log_event) (rule assms)
      from extends_trans [OF one extends_trans [OF this Cons.IH]] l Exhausted True
      show ?thesis by simp
    next
      case False
      with l Exhausted one show ?thesis by simp
    qed
  qed (use l one in simp_all)
qed

lemma extends_findFolder: "P (FindFolder n p) \<Longrightarrow> extends P w (snd (findFolder n p w))"
  by (simp add: findFolder_def extends_log_event)

lemma extends_parentFolder:
  assumes "\<And>n p. P (FindFolder n p)"
  shows "extends P w (snd (parentFolder env dateStr w))"
  by (simp add: parentFolder_def Let_def extends_findFolder assms split: list.splits)

lemma extends_resolveCategoryFolder:
  assumes "\<And>p. P (ListChildFolders p)"
  shows "extends P w (snd (resolveCategoryFolder c p w))"
  by (simp add: resolveCategoryFolder_def Let_def listChildFolders_def extends_log_event assms
      split: property.splits option.splits)

lemma extends_files_create: "P (FilesCreate up) \<Longrightarrow> extends P w (snd (files_create env up w))"
  by (simp add: files_create_def extends_log_event)

lemma after_token_callGemini:
  assumes "\<And>l. P (Fetch l)" and "\<And>n. P (Wait n)"
  shows "extends P (log_event GetAccessToken w) (snd (callGemini env w))"
  unfolding callGemini_def by (rule extends_attemptLoop) (rule assms)+

lemma after_call_processReceipt_image:
  assumes d: "\<And>n p. P (FindFolder n p)" "\<And>p. P (ListChildFolders p)"
    and c: "\<And>up. upload_body up = file_bytes file \<Longrightarrow> P (FilesCreate up)"
  shows "extends P (snd (callGemini env w)) (snd (processReceipt_image env file w))"
proof -
  obtain r1 w1 where s1: "callGemini env w = (r1, w1)" by (cases "callGemini env w")
  have "extends P w1 (snd (processReceipt_image env file w))"
  proof (cases r1)
    case (Inl e)
    with s1 show ?thesis by (simp add: processReceipt_image_def)
  next
    case (Inr dt)
    obtain r2 w2 where s2: "parentFolder env (orElse (data_date dt) (today env)) w1 = (r2, w2)"
      by (cases "parentFolder env (orElse (data_date dt) (today env)) w1")
    have e2: "extends P w1 w2"
      using extends_parentFolder [of P w1 env] d s2 by (metis snd_conv)
    show ?thesis
    proof (cases r2)
      case (Inl e)
      with s1 s2 \<open>r1 = Inr dt\<close> e2 show ?thesis by (simp add: processReceipt_image_def Let_def)
    next
      case (Inr p)
      obtain r3 w3 where s3: "resolveCategoryFolder (orElse (data_category dt) lit_sonota) p w2 = (r3, w3)"
        by (cases "resolveCategoryFolder (orElse (data_category dt) lit_sonota) p w2")
      have e3: "extends P w1 w3"
        using extends_trans [OF e2 extends_resolveCategoryFolder [of P w2]] d s3 by (metis snd_conv)
      show ?thesis
      proof (cases r3)
        case (Inl e)
        with s1 s2 s3 \<open>r1 = Inr dt\<close> \<open>r2 = Inr p\<close> e3 show ?thesis
          by (simp add: processReceipt_image_def Let_def)
      next
        case (Inr t)
        define up where "up = \<lparr>upload_name = orElse (data_date dt) (today env) @ u ''_''
                 @ orElse (data_category dt) lit_sonota @ u ''_''
                 @ orElse (data_vendor dt) lit_fumei @ u ''.jpg'', upload_parent = t,
               upload_mimeType = orElse (Some (file_type file)) (u ''image/jpeg''),
               upload_body = file_bytes file\<rparr>"
        have "P (FilesCreate up)" by (rule c) (simp add: up_def)
        then have "extends P w3 (snd (files_create env up w3))" by (rule extends_files_create)
        with e3 have e4: "extends P w1 (snd (files_create env up w3))" by (rule extends_trans)
        have "snd (processReceipt_image env file w) = snd (files_create env up w3)"
          using s1 s2 s3 \<open>r1 = Inr dt\<close> \<open>r2 = Inr p\<close> Inr
          by (simp add: processReceipt_image_def Let_def up_def split: prod.splits option.splits)
        with e4 show ?thesis by simp
      qed
    qed
  qed
  with s1 show ?thesis by simp
qed



lemma after_token_processPdf_page:
  assumes m: "\<And>l. P (Fetch l)" "\<And>n. P (Wait n)"
    and d: "\<And>n p. P (FindFolder n p)" "\<And>p. P (ListChildFolders p)"
    and c: "\<And>up. upload_body up = pageBuffer \<Longrightarrow> P (FilesCreate up)"
  shows "extends P (log_event GetAccessToken w) (snd (processPdf_page env pageBuffer pageNum w))"
proof -
  define w0 where "w0 = log_event GetAccessToken w"
  obtain r1 w1 where s1: "callGemini env w = (r1, w1)" by (cases "callGemini env w")
  have e1: "extends P w0 w1" using after_token_callGemini [of P w env] m s1 by (simp add: w0_def)
  have "extends P w0 (snd (processPdf_page env pageBuffer pageNum w))"
  proof (cases r1)
    case (Inl e)
    with s1 e1 show ?thesis by (simp add: processPdf_page_def)
  next
    case (Inr dt)
    obtain r2 w2 where s2: "parentFolder env (orElse (data_date dt) (today env)) w1 = (r2, w2)"
      by (cases "parentFolder env (orElse (data_date dt) (today env)) w1")
    have e2: "extends P w0 w2"
      using extends_trans [OF e1 extends_parentFolder [of P w1 env]] d s2 by (metis snd_conv)
    show ?thesis
    proof (cases r2)
      case (Inl e)
      with s1 s2 \<open>r1 = Inr dt\<close> e2 show ?thesis by (simp add: processPdf_page_def Let_def)
    next
      case (Inr p)
      obtain r3 w3 where s3: "resolveCategoryFolder (orElse (data_category dt) lit_sonota) p w2 = (r3, w3)"
        by (cases "resolveCategoryFolder (orElse (data_category dt) lit_sonota) p w2")
      have e3: "extends P w0 w3"
        using extends_trans [OF e2 extends_resolveCategoryFolder [of P w2]] d s3 by (metis snd_conv)
      show ?thesis
      proof (cases r3)
        case (Inl e)
        with s1 s2 s3 \<open>r1 = Inr dt\<close> \<open>r2 = Inr p\<close> e3 show ?thesis
          by (simp add: processPdf_page_def Let_def)
      next
        case (Inr t)
        define up where "up = \<lparr>upload_name = orElse (data_date dt) (today env) @ u ''_''
                 @ orElse (data_category dt) lit_sonota @ u ''_''
                 @ orElse (data_vendor dt) lit_fumei @ u ''_p'' @ showNumber pageNum @ u ''.png'',
               upload_parent = t, upload_mimeType = u ''image/png'', upload_body = pageBuffer\<rparr>"
        have "P (FilesCreate up)" by (rule c) (simp add: up_def)
        then have "extends P w3 (snd (files_create env up w3))" by (rule extends_files_create)
        with e3 have e4: "extends P w0 (snd (files_create env up w3))" by (rule extends_trans)
        have "snd (processPdf_page env pageBuffer pageNum w) = snd (files_create env up w3)"
          using s1 s2 s3 \<open>r1 = Inr dt\<close> \<open>r2 = Inr p\<close> Inr
          by (simp add: processPdf_page_def Let_def up_def split: prod.splits option.splits)
        with e4 show ?thesis by simp
      qed
    qed
  qed
  then show ?thesis by (simp add: w0_def)
qed

lemma extends_processPdf_page:
  assumes "P GetAccessToken" "\<And>l. P (Fetch l)" "\<And>n. P (Wait n)"
    and "\<And>n p. P (FindFolder n p)" "\<And>p. P (ListChildFolders p)"
    and "\<And>up. upload_body up = pageBuffer \<Longrightarrow> P (FilesCreate up)"
  shows "extends P w (snd (processPdf_page env pageBuffer pageNum w))"
  by (rule extends_trans [OF extends_log_event after_token_processPdf_page]) (use assms in blast)+

lemma extends_pageLoop:
  assumes m: "P GetAccessToken" "\<And>l. P (Fetch l)" "\<And>n. P (Wait n)"
    and d: "\<And>n p. P (FindFolder n p)" "\<And>p. P (ListChildFolders p)"
    and c: "\<And>up. Inr (upload_body up) \<in> set items \<Longrightarrow> P (FilesCreate up)"
  shows "extends P w (snd (pageLoop env items pageNum rs errors w))"
  using c
proof (induction items arbitrary: pageNum rs errors w)
  case Nil
  show ?case by simp
next
  case (Cons item items)
  show ?case
  proof (cases item)
    case (Inl msg)
    then show ?thesis by simp
  next
    case (Inr pg)
    obtain r w1 where s: "processPdf_page env pg (pageNum + 1) w = (r, w1)"
      by (cases "processPdf_page env pg (pageNum + 1) w")
    have e1: "extends P w w1"
      using extends_processPdf_page [of P pg w env "pageNum + 1"] m d Cons.prems s Inr by simp
    have rest: "\<And>n rs es. extends P w1 (snd (pageLoop env items n rs es w1))"
      by (rule Cons.IH) (simp add: Cons.prems)
    show ?thesis
      using s Inr extends_trans [OF e1 rest] by (cases r) simp_all
  qed
qed

lemma snd_processPdf:
  assumes "pdf env b = Inr items"
  shows "snd (processPdf env b name w) = snd (pageLoop env items 0 [] [] (log_event (PdfToImg b) w))"
proof -
  obtain x w1 where pl: "pageLoop env items 0 [] [] (log_event (PdfToImg b) w) = (x, w1)"
    by (cases "pageLoop env items 0 [] [] (log_event (PdfToImg b) w)")
  show ?thesis
  proof (cases x)
    case (Inl e)
    with assms pl show ?thesis by (simp add: processPdf_def)
  next
    case (Inr t)
    obtain n rs es where "t = (n, rs, es)" by (cases t)
    with assms pl Inr show ?thesis by (simp add: processPdf_def)
  qed
qed


lemma snd_catch_all [simp]: "snd (catch_all r) = snd r"
  by (simp add: catch_all_def split: prod.splits sum.splits)


section \<open>The entry point\<close>

text \<open>
  C9: when the form has no file, or the file has size zero, \<open>processReceipt\<close> returns the
  failure with the fixed message "the file is empty", and the state is the one it started
  from: no model call, no directory lookup and no store operation has been recorded.
\<close>

theorem empty_file_is_rejected:
  assumes "case formFile of None \<Rightarrow> True | Some file \<Rightarrow> file_size file = 0"
  shows "processReceipt env formFile w
         = (\<lparr>success = False, message = lit_file_empty, data = None, results = None\<rparr>, w)"
  using assms by (cases formFile) (simp_all add: processReceipt_def failure_def)

theorem empty_file_is_rejected_witness:
  "file_size empty_upload = 0
   \<and> processReceipt example_env (Some empty_upload) empty_world
       = (\<lparr>success = False, message = lit_file_empty, data = None, results = None\<rparr>, empty_world)
   \<and> processReceipt example_env None empty_world
       = (\<lparr>success = False, message = lit_file_empty, data = None, results = None\<rparr>, empty_world)"
proof -
  have z: "file_size empty_upload = 0" by (simp add: file_size_def empty_upload_def)
  then have a: "case Some empty_upload of None \<Rightarrow> True | Some file \<Rightarrow> file_size file = 0" by simp
  have b: "case (None :: jsfile option) of None \<Rightarrow> True | Some file \<Rightarrow> file_size file = 0" by simp
  from z empty_file_is_rejected [OF a, of example_env empty_world]
    empty_file_is_rejected [OF b, of example_env empty_world]
  show ?thesis by (intro conjI)
qed

section \<open>Routing by year\<close>

lemma split_isoDate: "split 0x2D (isoDate y m d) = [pad4 y, pad2 m, pad2 d]"
  by (simp add: isoDate_def pad4_def pad2_def)

lemma not_white_digit: "k < 10 \<Longrightarrow> \<not> isWhiteSpace (48 + k)"
  by (auto simp: isWhiteSpace_def)

lemma digit_digit: "k < 10 \<Longrightarrow> isDigit (48 + k)"
  by (simp add: isDigit_def)

lemma parseInt_four:
  assumes "a < 10" "b < 10" "c < 10" "d < 10"
  shows "parseInt [48 + a, 48 + b, 48 + c, 48 + d] = Some (int (1000 * a + 100 * b + 10 * c + d))"
  using assms by (simp add: parseInt_def Let_def not_white_digit digit_digit digitsValue_def)

lemma four_digits:
  assumes "y \<le> 9999"
  shows "1000 * (y div 1000 mod 10) + 100 * (y div 100 mod 10) + 10 * (y div 10 mod 10) + y mod 10 = (y::nat)"
proof -
  have a: "y mod (1000 * 10) = 1000 * (y div 1000 mod 10) + y mod 1000" by (rule mod_mult2_eq)
  have b: "y mod (100 * 10) = 100 * (y div 100 mod 10) + y mod 100" by (rule mod_mult2_eq)
  have c: "y mod (10 * 10) = 10 * (y div 10 mod 10) + y mod 10" by (rule mod_mult2_eq)
  from assms have "y mod (1000 * 10) = y" by simp
  with a b c show ?thesis by simp
qed

lemma last_two_digits: "y mod 100 div 10 mod 10 = y div 10 mod 10" "y mod 100 mod 10 = y mod (10::nat)"
proof -
  have c: "y mod (10 * 10) = 10 * (y div 10 mod 10) + y mod 10" by (rule mod_mult2_eq)
  then have "y mod 100 div 10 = y div 10 mod 10" by simp
  then show "y mod 100 div 10 mod 10 = y div 10 mod 10" by simp
  show "y mod 100 mod 10 = y mod 10" by (simp add: mod_mod_cancel)
qed

lemma parseInt_pad4:
  assumes "y \<le> 9999"
  shows "parseInt (pad4 y) = Some (int y)"
proof -
  have "parseInt (pad4 y) = Some (int (1000 * (y div 1000 mod 10) + 100 * (y div 100 mod 10)
      + 10 * (y div 10 mod 10) + y mod 10))"
    unfolding pad4_def by (rule parseInt_four) simp_all
  then show ?thesis by (simp only: four_digits [OF assms])
qed

lemma slice_pad4: "slice_last2 (pad4 y) = pad2 (y mod 100)"
  by (simp add: slice_last2_def pad4_def pad2_def last_two_digits)

lemma falsy_findFolder:
  "fst (findFolder name parentId w)
   = (case filter (\<lambda>f. folder_name f = name \<and> folder_parent f = parentId) (folders w) of
        [] \<Rightarrow> None | f # _ \<Rightarrow> Some (folder_id f))"
  by (simp add: findFolder_def files_list_def split: list.splits)

lemma snd_findFolder: "snd (findFolder name parentId w) = log_event (FindFolder name parentId) w"
  by (simp add: findFolder_def)

lemma parentFolder_isoDate:
  assumes "y \<le> 9999"
  shows "parentFolder env (isoDate y m d) w =
     (let name = (if y \<le> 2025 then lit_legacy else pad2 (y mod 100) @ pad2 m);
          missing = (if y \<le> 2025 then [0x300C] @ lit_legacy @ [0x300D] @ lit_folder_not_found
                     else lit_month_missing @ name)
      in (case filter (\<lambda>f. folder_name f = name \<and> folder_parent f = ROOT_FOLDER_ID env) (folders w) of
            [] \<Rightarrow> Inl (Error missing)
          | f # _ \<Rightarrow> if folder_id f = [] then Inl (Error missing) else Inr (folder_id f),
          log_event (FindFolder name (ROOT_FOLDER_ID env)) w))"
proof (cases "y \<le> 2025")
  case True
  then have "year_le (parseInt (pad4 y)) 2025" using assms by (simp add: parseInt_pad4 year_le_def)
  with True show ?thesis
    by (simp add: parentFolder_def split_isoDate Let_def falsy_findFolder snd_findFolder falsy_def
        nullish_def lit_legacy_missing_def split: list.splits)
next
  case False
  then have "\<not> year_le (parseInt (pad4 y)) 2025" using assms by (simp add: parseInt_pad4 year_le_def)
  with False show ?thesis
    by (simp add: parentFolder_def split_isoDate Let_def falsy_findFolder snd_findFolder falsy_def
        nullish_def slice_pad4 template_def split: list.splits)
qed




section \<open>Category directories\<close>

lemma Map_of_pairs_lookup:
  "Map_of_pairs (map (\<lambda>f. (folder_name f, folder_id f)) fs) n
   = (if n \<in> set (map folder_name fs)
      then Some (folder_id (last (filter (\<lambda>f. folder_name f = n) fs))) else None)"
proof (induction fs rule: rev_induct)
  case Nil
  show ?case by (simp add: Map_of_pairs_def)
next
  case (snoc x xs)
  then show ?case by (auto simp: Map_of_pairs_def)
qed

lemma candidateLoop_find:
  "candidateLoop m names = (case find (\<lambda>n. \<not> falsy (m n)) names of None \<Rightarrow> None | Some n \<Rightarrow> m n)"
  by (induction names) simp_all

lemma last_filter_in: "n \<in> set (map folder_name fs) \<Longrightarrow> last (filter (\<lambda>f. folder_name f = n) fs) \<in> set fs"
proof -
  assume "n \<in> set (map folder_name fs)"
  then have "filter (\<lambda>f. folder_name f = n) fs \<noteq> []" by (auto simp: filter_empty_conv)
  then have "last (filter (\<lambda>f. folder_name f = n) fs) \<in> set (filter (\<lambda>f. folder_name f = n) fs)"
    by (rule last_in_set)
  then show ?thesis by simp
qed

lemma present_iff:
  assumes "\<forall>f\<in>set fs. folder_id f \<noteq> []"
  shows "(\<not> falsy (Map_of_pairs (map (\<lambda>f. (folder_name f, folder_id f)) fs) n))
         = (n \<in> set (map folder_name fs))"
  using assms last_filter_in [of n fs] by (auto simp: Map_of_pairs_lookup falsy_def)

lemma get_not_inherited:
  "category \<notin> set Object_prototype_keys \<Longrightarrow>
   CATEGORY_FALLBACKS_get category
   = (case map_of CATEGORY_FALLBACKS category of Some names \<Rightarrow> Own names | None \<Rightarrow> Undefined)"
  by (simp add: CATEGORY_FALLBACKS_get_def split: option.splits)

lemma resolveCategoryFolder_listing:
  assumes proto: "category \<notin> set Object_prototype_keys"
    and ids: "\<forall>f\<in>set (folders w). folder_id f \<noteq> []"
  shows "resolveCategoryFolder category parentId w =
     (let children = take 100 (filter (\<lambda>f. folder_parent f = parentId) (folders w));
          candidates = (case map_of CATEGORY_FALLBACKS category of
                          Some names \<Rightarrow> names
                        | None \<Rightarrow> [category, lit_3_ryoshusho, lit_sonota, lit_7_sonota])
      in (case find (\<lambda>name. name \<in> set (map folder_name children)) candidates of
            Some name \<Rightarrow> Inr (folder_id (last (filter (\<lambda>f. folder_name f = name) children)))
          | None \<Rightarrow> Inl (Error (lit_category_missing @ category @ lit_available
                       @ join (u '', '') (filter (\<lambda>n. n \<noteq> []) (map folder_name children)))),
          log_event (ListChildFolders parentId) w))"
proof -
  define children where "children = take 100 (filter (\<lambda>f. folder_parent f = parentId) (folders w))"
  define candidates where "candidates = (case map_of CATEGORY_FALLBACKS category of
                          Some names \<Rightarrow> names
                        | None \<Rightarrow> [category, lit_3_ryoshusho, lit_sonota, lit_7_sonota])"
  define m where "m = Map_of_pairs (map (\<lambda>f. (folder_name f, folder_id f)) children)"
  have cids: "\<forall>f\<in>set children. folder_id f \<noteq> []"
    using ids by (auto simp: children_def dest: in_set_takeD)
  have pres: "(\<lambda>n. \<not> falsy (m n)) = (\<lambda>name. name \<in> set (map folder_name children))"
    unfolding m_def using present_iff [OF cids] by blast
  have loop0: "candidateLoop m candidates
      = (case find (\<lambda>name. name \<in> set (map folder_name children)) candidates of
           None \<Rightarrow> None | Some name \<Rightarrow> m name)"
    by (simp only: candidateLoop_find pres)
  have loop: "candidateLoop m candidates
      = (case find (\<lambda>name. name \<in> set (map folder_name children)) candidates of
           None \<Rightarrow> None
         | Some name \<Rightarrow> Some (folder_id (last (filter (\<lambda>f. folder_name f = name) children))))"
  proof (cases "find (\<lambda>name. name \<in> set (map folder_name children)) candidates")
    case None
    then show ?thesis by (simp add: loop0)
  next
    case (Some name)
    then have "name \<in> set (map folder_name children)" by (auto simp: find_Some_iff)
    then have "m name = Some (folder_id (last (filter (\<lambda>f. folder_name f = name) children)))"
      by (simp add: m_def Map_of_pairs_lookup)
    with Some show ?thesis by (simp add: loop0)
  qed
  have "resolveCategoryFolder category parentId w =
      (case candidateLoop m candidates of
         Some i \<Rightarrow> Inr i
       | None \<Rightarrow> Inl (Error (lit_category_missing @ category @ lit_available
                       @ join (u '', '') (filter (\<lambda>n. n \<noteq> []) (map folder_name children)))),
       log_event (ListChildFolders parentId) w)"
    by (simp add: resolveCategoryFolder_def listChildFolders_def files_list_def Let_def
        get_not_inherited [OF proto] children_def candidates_def m_def split: option.splits)
  then show ?thesis
    unfolding loop Let_def children_def [symmetric] candidates_def [symmetric]
    by (simp split: option.splits)
qed

lemma crowded_names_length: "length crowded_names = 100"
  by (simp add: crowded_names_def)

lemma crowded_names_head: "n \<in> set crowded_names \<Longrightarrow> n \<noteq> [] \<and> hd n = 100"
  by (auto simp: crowded_names_def u_def)

lemma crowded_children:
  "take 100 (filter (\<lambda>f. folder_parent f = u ''parent'') (folders crowded))
   = map (\<lambda>n. \<lparr>folder_id = u ''id-'' @ n, folder_name = n, folder_parent = u ''parent''\<rparr>) crowded_names"
  by (simp add: crowded_def crowded_names_length filter_map comp_def)

lemma crowded_children_names:
  "map folder_name (map (\<lambda>n. \<lparr>folder_id = u ''id-'' @ n, folder_name = n, folder_parent = u ''parent''\<rparr>)
      crowded_names) = crowded_names"
  by (simp add: comp_def)

lemma crowded_ids: "\<forall>f\<in>set (folders crowded). folder_id f \<noteq> []"
  by (auto simp: crowded_def u_def)

lemma kaigihi_not_inherited: "lit_kaigihi \<notin> set Object_prototype_keys"
  by (simp add: Object_prototype_keys_def lit_kaigihi_def u_def)

text \<open>
  C2, as stated, fails: the claim is that the first candidate name present among the
  children of the parent is chosen, and that the error enumerates every directory name
  under the parent. Under \<open>parent\<close> there are 101 directories, the last one named
  "7-sonota", a candidate of the category "kaigihi"; the listing asks for one page of 100,
  so the resolution fails, and its message enumerates the first 100 names only.
\<close>

theorem listing_is_one_page_counterexample:
  "\<lparr>folder_id = u ''target'', folder_name = lit_7_sonota, folder_parent = u ''parent''\<rparr>
     \<in> set (folders crowded)
   \<and> map_of CATEGORY_FALLBACKS lit_kaigihi = Some [lit_kaigihi, lit_3_ryoshusho, lit_sonota, lit_7_sonota]
   \<and> lit_7_sonota \<notin> set crowded_names
   \<and> fst (resolveCategoryFolder lit_kaigihi (u ''parent'') crowded)
       = Inl (Error (lit_category_missing @ lit_kaigihi @ lit_available
                     @ join (u '', '') crowded_names))"
proof -
  have a: "\<lparr>folder_id = u ''target'', folder_name = lit_7_sonota, folder_parent = u ''parent''\<rparr>
     \<in> set (folders crowded)" by (simp add: crowded_def)
  have b: "map_of CATEGORY_FALLBACKS lit_kaigihi = Some [lit_kaigihi, lit_3_ryoshusho, lit_sonota, lit_7_sonota]"
    by (simp add: CATEGORY_FALLBACKS_def)
  have absent: "lit_kaigihi \<notin> set crowded_names" "lit_3_ryoshusho \<notin> set crowded_names"
    "lit_sonota \<notin> set crowded_names" "lit_7_sonota \<notin> set crowded_names"
    by (auto simp: category_literals dest: crowded_names_head)
  have nonempty: "filter (\<lambda>n. n \<noteq> []) crowded_names = crowded_names"
    by (auto simp: filter_id_conv dest: crowded_names_head)
  have "fst (resolveCategoryFolder lit_kaigihi (u ''parent'') crowded)
       = Inl (Error (lit_category_missing @ lit_kaigihi @ lit_available
                     @ join (u '', '') crowded_names))"
    unfolding resolveCategoryFolder_listing [OF kaigihi_not_inherited crowded_ids]
      Let_def crowded_children crowded_children_names b
    by (simp add: absent nonempty)
  with a b absent(4) show ?thesis by (intro conjI)
qed

text \<open>
  A category whose name is that of a property which every object inherits
  (\<open>constructor\<close>, \<open>toString\<close>, ...) is not outside the table for the lookup
  \<open>CATEGORY_FALLBACKS[category]\<close>: the lookup finds the inherited property, the
  default list is not used, and the loop over the candidates throws a TypeError.
\<close>

lemma inherited_property_as_category:
  "category \<in> set Object_prototype_keys \<Longrightarrow>
   fst (resolveCategoryFolder category parentId w) = Inl (TypeError (u ''candidates is not iterable''))"
proof -
  assume c: "category \<in> set Object_prototype_keys"
  have "\<forall>k\<in>set Object_prototype_keys. map_of CATEGORY_FALLBACKS k = None"
    by (simp add: Object_prototype_keys_def CATEGORY_FALLBACKS_def category_literals u_def)
  with c have "CATEGORY_FALLBACKS_get category = Inherited"
    by (simp add: CATEGORY_FALLBACKS_get_def)
  then show ?thesis by (simp add: resolveCategoryFolder_def Let_def)
qed

lemma constructor_as_category:
  "fst (resolveCategoryFolder (u ''constructor'') parentId w)
   = Inl (TypeError (u ''candidates is not iterable''))"
  by (rule inherited_property_as_category) (simp add: Object_prototype_keys_def)

text \<open>
  C2, amended: for a category that is not the name of an inherited property, and a store
  whose directories all have an id, the resolution lists the children of the parent once,
  one page of at most 100; the candidates are the entry of the table (for a category
  outside the table: the category, "3-ryoshusho", "sonota", "7-sonota"); the first
  candidate that is the name of a listed child is chosen, and the result is the id of
  the last listed child of that name; when no candidate is the name of a listed child,
  the error enumerates the non-empty names of all listed children.
\<close>

theorem category_resolution:
  assumes "category \<notin> set Object_prototype_keys"
    and "\<forall>f\<in>set (folders w). folder_id f \<noteq> []"
  shows "resolveCategoryFolder category parentId w =
     (let children = take 100 (filter (\<lambda>f. folder_parent f = parentId) (folders w));
          candidates = (case map_of CATEGORY_FALLBACKS category of
                          Some names \<Rightarrow> names
                        | None \<Rightarrow> [category, lit_3_ryoshusho, lit_sonota, lit_7_sonota])
      in (case find (\<lambda>name. name \<in> set (map folder_name children)) candidates of
            Some name \<Rightarrow> Inr (folder_id (last (filter (\<lambda>f. folder_name f = name) children)))
          | None \<Rightarrow> Inl (Error (lit_category_missing @ category @ lit_available
                       @ join (u '', '') (filter (\<lambda>n. n \<noteq> []) (map folder_name children)))),
          log_event (ListChildFolders parentId) w))"
  using assms by (rule resolveCategoryFolder_listing)

theorem category_resolution_witness:
  "u ''parking'' \<notin> set Object_prototype_keys
   \<and> map_of CATEGORY_FALLBACKS (u ''parking'') = None
   \<and> resolveCategoryFolder (u ''parking'') (u ''jan'') drive_world
       = (Inr (u ''receipts-jan''), log_event (ListChildFolders (u ''jan'')) drive_world)
   \<and> resolveCategoryFolder lit_kotsuhi (u ''old'') drive_world
       = (Inr (u ''taxi-old''), log_event (ListChildFolders (u ''old'')) drive_world)
   \<and> resolveCategoryFolder lit_kaigihi (u ''root'') drive_world
       = (Inl (Error (lit_category_missing @ lit_kaigihi @ lit_available
                      @ lit_legacy @ u '', '' @ u ''2601'')),
          log_event (ListChildFolders (u ''root'')) drive_world)"
proof -
  have p: "u ''parking'' \<notin> set Object_prototype_keys"
    by (simp add: Object_prototype_keys_def u_def)
  have k: "lit_kotsuhi \<notin> set Object_prototype_keys"
    by (simp add: Object_prototype_keys_def lit_kotsuhi_def u_def)
  have ids: "\<forall>f\<in>set (folders drive_world). folder_id f \<noteq> []"
    by (simp add: drive_world_def u_def)
  have none: "map_of CATEGORY_FALLBACKS (u ''parking'') = None"
    by (simp add: CATEGORY_FALLBACKS_def category_literals u_def)
  have a: "resolveCategoryFolder (u ''parking'') (u ''jan'') drive_world
       = (Inr (u ''receipts-jan''), log_event (ListChildFolders (u ''jan'')) drive_world)"
    unfolding category_resolution [OF p ids] none
    by (simp add: drive_world_def category_literals lit_legacy_def u_def)
  have b: "resolveCategoryFolder lit_kotsuhi (u ''old'') drive_world
       = (Inr (u ''taxi-old''), log_event (ListChildFolders (u ''old'')) drive_world)"
    unfolding category_resolution [OF k ids]
    by (simp add: CATEGORY_FALLBACKS_def drive_world_def category_literals lit_legacy_def u_def)
  have c: "resolveCategoryFolder lit_kaigihi (u ''root'') drive_world
       = (Inl (Error (lit_category_missing @ lit_kaigihi @ lit_available
                      @ lit_legacy @ u '', '' @ u ''2601'')),
          log_event (ListChildFolders (u ''root'')) drive_world)"
    unfolding category_resolution [OF kaigihi_not_inherited ids]
    by (simp add: CATEGORY_FALLBACKS_def drive_world_def category_literals lit_legacy_def u_def)
  from p none a b c show ?thesis by (intro conjI)
qed

section \<open>Filing one page\<close>

lemma processReceipt_image_filed:
  assumes "callGemini env w = (Inr d, w1)"
    and "parentFolder env (orElse (data_date d) (today env)) w1 = (Inr p, w2)"
    and "resolveCategoryFolder (orElse (data_category d) lit_sonota) p w2 = (Inr t, w3)"
    and "name = orElse (data_date d) (today env) @ u ''_'' @ orElse (data_category d) lit_sonota
           @ u ''_'' @ orElse (data_vendor d) lit_fumei @ u ''.jpg''"
    and "up = \<lparr>upload_name = name, upload_parent = t,
               upload_mimeType = orElse (Some (file_type file)) (u ''image/jpeg''),
               upload_body = file_bytes file\<rparr>"
    and "create_error env up = None"
  shows "processReceipt_image env file w
         = (Inr \<lparr>success = True, message = [0x300C] @ name @ lit_saved,
                 data = Some \<lparr>r_date = orElse (data_date d) (today env),
                              r_amount = nullish (data_amount d) 0,
                              r_vendor = nullish (data_vendor d) lit_fumei,
                              r_category = orElse (data_category d) lit_sonota,
                              r_fileName = name\<rparr>,
                 results = None\<rparr>,
            log_event (FilesCreate up) w3)"
  using assms by (simp add: processReceipt_image_def Let_def files_create_def)

lemma processPdf_page_filed:
  assumes "callGemini env w = (Inr d, w1)"
    and "parentFolder env (orElse (data_date d) (today env)) w1 = (Inr p, w2)"
    and "resolveCategoryFolder (orElse (data_category d) lit_sonota) p w2 = (Inr t, w3)"
    and "name = orElse (data_date d) (today env) @ u ''_'' @ orElse (data_category d) lit_sonota
           @ u ''_'' @ orElse (data_vendor d) lit_fumei @ u ''_p'' @ showNumber pageNum @ u ''.png''"
    and "up = \<lparr>upload_name = name, upload_parent = t, upload_mimeType = u ''image/png'',
               upload_body = pageBuffer\<rparr>"
    and "create_error env up = None"
  shows "processPdf_page env pageBuffer pageNum w
         = (Inr \<lparr>r_date = orElse (data_date d) (today env),
                 r_amount = nullish (data_amount d) 0,
                 r_vendor = nullish (data_vendor d) lit_fumei,
                 r_category = orElse (data_category d) lit_sonota,
                 r_fileName = name\<rparr>,
            log_event (FilesCreate up) w3)"
  using assms by (simp add: processPdf_page_def Let_def files_create_def)

lemma vendor_in_name: "orElse (Some (nullish v lit_fumei)) lit_fumei = orElse v lit_fumei"
  by (cases v) (simp_all add: orElse_def nullish_def lit_fumei_def)

lemma processReceipt_image_success:
  assumes "processReceipt_image env file w = (Inr r, w')"
  shows "\<exists>d w1 p w2 t w3 name up.
           callGemini env w = (Inr d, w1)
         \<and> parentFolder env (orElse (data_date d) (today env)) w1 = (Inr p, w2)
         \<and> resolveCategoryFolder (orElse (data_category d) lit_sonota) p w2 = (Inr t, w3)
         \<and> name = orElse (data_date d) (today env) @ u ''_'' @ orElse (data_category d) lit_sonota
               @ u ''_'' @ orElse (data_vendor d) lit_fumei @ u ''.jpg''
         \<and> up = \<lparr>upload_name = name, upload_parent = t,
               upload_mimeType = orElse (Some (file_type file)) (u ''image/jpeg''),
               upload_body = file_bytes file\<rparr>
         \<and> create_error env up = None"
  using assms
  by (auto simp: processReceipt_image_def Let_def files_create_def
      split: prod.splits sum.splits option.splits)

lemma processPdf_page_success:
  assumes "processPdf_page env pageBuffer pageNum w = (Inr rd, w')"
  shows "\<exists>d w1 p w2 t w3 name up.
           callGemini env w = (Inr d, w1)
         \<and> parentFolder env (orElse (data_date d) (today env)) w1 = (Inr p, w2)
         \<and> resolveCategoryFolder (orElse (data_category d) lit_sonota) p w2 = (Inr t, w3)
         \<and> name = orElse (data_date d) (today env) @ u ''_'' @ orElse (data_category d) lit_sonota
               @ u ''_'' @ orElse (data_vendor d) lit_fumei @ u ''_p'' @ showNumber pageNum @ u ''.png''
         \<and> up = \<lparr>upload_name = name, upload_parent = t, upload_mimeType = u ''image/png'',
               upload_body = pageBuffer\<rparr>
         \<and> create_error env up = None"
  using assms
  by (auto simp: processPdf_page_def Let_def files_create_def
      split: prod.splits sum.splits option.splits)

section \<open>The example store\<close>

lemma folders_log_event [simp]: "folders (log_event e w) = folders w"
  by (simp add: log_event_def)

lemma folders_fetches [simp]: "folders (fetches locs w) = folders w"
  by (simp add: fetches_def)

lemma first_location_answers:
  assumes "two_locations = locations env"
    and "status (respond env (fetched w) (u ''asia-northeast1'')) \<noteq> 429"
  shows "callGemini env w
         = (answer (respond env (fetched w) (u ''asia-northeast1'')),
            fetches [u ''asia-northeast1''] (log_event GetAccessToken w))"
proof -
  have "0 < length (locations env)" "rate_limited env (fetched w) (take 0 (locations env))"
    "status (respond env (fetched w + 0) (locations env ! 0)) \<noteq> 429"
    using assms(2) by (simp_all add: assms(1) [symmetric] two_locations_simps)
  from callGemini_first_attempt [OF this] show ?thesis
    by (simp add: assms(1) [symmetric] two_locations_simps two_locations_def)
qed

lemma drive_ids: "folders w = folders drive_world \<Longrightarrow> \<forall>f\<in>set (folders w). folder_id f \<noteq> []"
  by (simp add: drive_world_def u_def)

lemma date_2024: "u ''2024-03-05'' = isoDate 2024 3 5"
  by (simp add: isoDate_def pad4_def pad2_def u_def)

lemma date_2026: "u ''2026-01-15'' = isoDate 2026 1 15"
  by (simp add: isoDate_def pad4_def pad2_def u_def)

lemma drive_parent_2024:
  assumes "folders w = folders drive_world" and "ROOT_FOLDER_ID env = u ''root''"
  shows "parentFolder env (u ''2024-03-05'') w
         = (Inr (u ''old''), log_event (FindFolder lit_legacy (u ''root'')) w)"
  unfolding date_2024 using assms
  by (simp add: parentFolder_isoDate Let_def pad2_def drive_world_def u_def lit_legacy_def category_literals)

lemma drive_parent_2026:
  assumes "folders w = folders drive_world" and "ROOT_FOLDER_ID env = u ''root''"
  shows "parentFolder env (u ''2026-01-15'') w
         = (Inr (u ''jan''), log_event (FindFolder (u ''2601'') (u ''root'')) w)"
  unfolding date_2026 using assms
  by (simp add: parentFolder_isoDate Let_def pad2_def drive_world_def u_def lit_legacy_def category_literals)

lemma kotsuhi_not_inherited: "lit_kotsuhi \<notin> set Object_prototype_keys"
  by (simp add: Object_prototype_keys_def lit_kotsuhi_def u_def)

lemma sonota_not_inherited: "lit_sonota \<notin> set Object_prototype_keys"
  by (simp add: Object_prototype_keys_def lit_sonota_def u_def)

lemma drive_kotsuhi:
  assumes "folders w = folders drive_world"
  shows "resolveCategoryFolder lit_kotsuhi (u ''old'') w
         = (Inr (u ''taxi-old''), log_event (ListChildFolders (u ''old'')) w)"
  unfolding resolveCategoryFolder_listing [OF kotsuhi_not_inherited drive_ids [OF assms]] assms
  by (simp add: CATEGORY_FALLBACKS_def drive_world_def category_literals lit_legacy_def u_def)

lemma drive_sonota:
  assumes "folders w = folders drive_world"
  shows "resolveCategoryFolder lit_sonota (u ''jan'') w
         = (Inr (u ''receipts-jan''), log_event (ListChildFolders (u ''jan'')) w)"
  unfolding resolveCategoryFolder_listing [OF sonota_not_inherited drive_ids [OF assms]] assms
  by (simp add: CATEGORY_FALLBACKS_def drive_world_def category_literals lit_legacy_def u_def)

section \<open>Defaults\<close>

text \<open>
  C6: when the extraction call has returned a response, and the store has the parent
  directory and a category directory for the (defaulted) date and category and accepts
  the upload, both \<open>processReceipt\<close> (for an image) and \<open>processPdf\<close> (for a page) file the
  document without an exception, and in the record a missing date is the current date,
  a missing category is "sonota", a missing vendor is "fumei" and a missing amount is 0.
\<close>

theorem missing_fields_are_defaulted:
  assumes "callGemini env w = (Inr d, w1)"
    and "parentFolder env (orElse (data_date d) (today env)) w1 = (Inr p, w2)"
    and "resolveCategoryFolder (orElse (data_category d) lit_sonota) p w2 = (Inr t, w3)"
    and "\<forall>up. create_error env up = None"
  shows "(\<exists>r rd w'. processReceipt_image env file w = (Inr r, w') \<and> success r \<and> data r = Some rd
            \<and> (data_date d = None \<longrightarrow> r_date rd = today env)
            \<and> (data_category d = None \<longrightarrow> r_category rd = lit_sonota)
            \<and> (data_vendor d = None \<longrightarrow> r_vendor rd = lit_fumei)
            \<and> (data_amount d = None \<longrightarrow> r_amount rd = 0))
       \<and> (\<exists>rd w'. processPdf_page env pageBuffer pageNum w = (Inr rd, w')
            \<and> (data_date d = None \<longrightarrow> r_date rd = today env)
            \<and> (data_category d = None \<longrightarrow> r_category rd = lit_sonota)
            \<and> (data_vendor d = None \<longrightarrow> r_vendor rd = lit_fumei)
            \<and> (data_amount d = None \<longrightarrow> r_amount rd = 0))"
proof -
  from assms(4) have c: "\<And>up. create_error env up = None" by simp
  note image = processReceipt_image_filed [OF assms(1-3) refl refl c]
  note page = processPdf_page_filed [OF assms(1-3) refl refl c]
  show ?thesis
    unfolding image page by (simp add: orElse_def nullish_def)
qed

theorem missing_fields_are_defaulted_witness:
  "callGemini env_blank drive_world
     = (Inr blank, fetches [u ''asia-northeast1''] (log_event GetAccessToken drive_world))
   \<and> (\<exists>r rd w'. processReceipt_image env_blank photo drive_world = (Inr r, w') \<and> success r
          \<and> data r = Some rd \<and> r_date rd = u ''2026-01-15'' \<and> r_category rd = lit_sonota
          \<and> r_vendor rd = lit_fumei \<and> r_amount rd = 0)
   \<and> (\<exists>rd w'. processPdf_page env_blank [1] 1 drive_world = (Inr rd, w')
          \<and> r_date rd = u ''2026-01-15'' \<and> r_category rd = lit_sonota
          \<and> r_vendor rd = lit_fumei \<and> r_amount rd = 0)"
proof -
  define w1 where "w1 = fetches [u ''asia-northeast1''] (log_event GetAccessToken drive_world)"
  define w2 where "w2 = log_event (FindFolder (u ''2601'') (u ''root'')) w1"
  define w3 where "w3 = log_event (ListChildFolders (u ''jan'')) w2"
  have l: "two_locations = locations env_blank" unfolding env_blank_def by (rule locations_two)
  have today: "today env_blank = u ''2026-01-15''" and root: "ROOT_FOLDER_ID env_blank = u ''root''"
    and store: "\<forall>up. create_error env_blank up = None"
    by (simp_all add: env_blank_def example_env_def)
  have r: "respond env_blank (fetched drive_world) (u ''asia-northeast1'')
           = \<lparr>status = 200, body_text = [], body_json = Data blank\<rparr>"
    by (simp add: env_blank_def)
  have a: "callGemini env_blank drive_world = (Inr blank, w1)"
    unfolding w1_def using first_location_answers [OF l, of drive_world]
    by (simp add: r answer_def ok_def)
  have b: "parentFolder env_blank (orElse (data_date blank) (today env_blank)) w1 = (Inr (u ''jan''), w2)"
    unfolding w2_def using drive_parent_2026 [of w1 env_blank]
    by (simp add: blank_def orElse_def today root w1_def)
  have c: "resolveCategoryFolder (orElse (data_category blank) lit_sonota) (u ''jan'') w2
           = (Inr (u ''receipts-jan''), w3)"
    unfolding w3_def using drive_sonota [of w2]
    by (simp add: blank_def orElse_def w2_def w1_def)
  from missing_fields_are_defaulted [OF a b c store, of photo "[1]" 1] a
  show ?thesis by (simp add: blank_def today w1_def)
qed

section \<open>The pages of a PDF\<close>

lemma one_call_per_page:
  "extends (\<lambda>e. True) w (snd (processPdf_page env pg n w))
   \<and> extraction_calls (new_events w (snd (processPdf_page env pg n w))) = 1"
proof -
  define w0 where "w0 = log_event GetAccessToken w"
  define w' where "w' = snd (processPdf_page env pg n w)"
  have ex: "extends (\<lambda>e. e \<noteq> GetAccessToken) w0 w'"
    unfolding w0_def w'_def by (rule after_token_processPdf_page) simp_all
  have first: "extends (\<lambda>e. e = GetAccessToken) w w0"
    unfolding w0_def by (rule extends_log_event) simp
  have n0: "new_events w w0 = [GetAccessToken]"
    by (rule new_eventsI) (simp add: w0_def log_event_def)
  from new_events_trans [OF first ex] n0
  have ne: "new_events w w' = GetAccessToken # new_events w0 w'" by simp
  from ex have "filter (\<lambda>e. e = GetAccessToken) (new_events w0 w') = []"
    by (auto simp: extends_def list_all_iff filter_empty_conv)
  with ne have "extraction_calls (new_events w w') = 1" by (simp add: extraction_calls_def)
  moreover have "extends (\<lambda>e. True) w w'"
    by (rule extends_trans [OF extends_mono [OF first] extends_mono [OF ex]]) simp_all
  ultimately show ?thesis by (simp add: w'_def)
qed

lemma extraction_calls_append [simp]:
  "extraction_calls (xs @ ys) = extraction_calls xs + extraction_calls ys"
  by (simp add: extraction_calls_def)

lemma pageLoop_counts:
  "pageLoop env items n rs es w = (Inr (n', rs', es'), w') \<Longrightarrow>
   n' = n + length items \<and> length rs' + length es' = length rs + length es + length items
   \<and> extraction_calls (new_events w w') = length items"
proof (induction items arbitrary: n rs es w)
  case Nil
  then show ?case by (simp add: new_events_def extraction_calls_def)
next
  case (Cons item items)
  show ?case
  proof (cases item)
    case (Inl msg)
    with Cons.prems show ?thesis by simp
  next
    case (Inr pg)
    obtain r w1 where s: "processPdf_page env pg (n + 1) w = (r, w1)"
      by (cases "processPdf_page env pg (n + 1) w")
    from one_call_per_page [of w env pg "n + 1"] s
    have e1: "extends (\<lambda>e. True) w w1" and c1: "extraction_calls (new_events w w1) = 1" by simp_all
    have tail: "\<And>n rs es. pageLoop env items n rs es w1 = (Inr (n', rs', es'), w') \<Longrightarrow>
        extraction_calls (new_events w w') = length (item # items)"
    proof -
      fix n rs es
      assume pl: "pageLoop env items n rs es w1 = (Inr (n', rs', es'), w')"
      from Cons.IH [OF pl] have c2: "extraction_calls (new_events w1 w') = length items" by simp
      have "extends (\<lambda>e. True) w1 (snd (pageLoop env items n rs es w1))"
        by (rule extends_pageLoop) simp_all
      with pl have e2: "extends (\<lambda>e. True) w1 w'" by simp
      from new_events_trans [OF e1 e2] c1 c2
      show "extraction_calls (new_events w w') = length (item # items)" by simp
    qed
    show ?thesis
    proof (cases r)
      case (Inl e)
      with s Inr Cons.prems have pl: "pageLoop env items (n + 1) rs
          (es @ [lit_page @ showNumber (n + 1) @ u '': '' @ exn_message e]) w1 = (Inr (n', rs', es'), w')"
        by simp
      from Cons.IH [OF pl] tail [OF pl] show ?thesis by simp
    next
      case (Inr rd)
      with s \<open>item = Inr pg\<close> Cons.prems
      have pl: "pageLoop env items (n + 1) (rs @ [rd]) es w1 = (Inr (n', rs', es'), w')"
        by simp
      from Cons.IH [OF pl] tail [OF pl] show ?thesis by simp
    qed
  qed
qed

lemma pageLoop_rendered:
  "\<exists>x w'. pageLoop env (map Inr pages) n rs es w = (Inr x, w')"
proof (induction pages arbitrary: n rs es w)
  case Nil
  show ?case by simp
next
  case (Cons pg pages)
  obtain r w1 where s: "processPdf_page env pg (n + 1) w = (r, w1)"
    by (cases "processPdf_page env pg (n + 1) w")
  show ?case using s Cons.IH by (cases r) simp_all
qed

text \<open>
  The outcome of a batch when every step of the page iterator yields a page: the loop
  ends with \<open>pageNum\<close> equal to the number of pages and with lists of records and of
  errors whose lengths add up to that number, after one extraction call for every page;
  the result is the failure with the joined errors exactly when the list of records is
  empty, and otherwise a success whose message gives the number of pages, the number of
  records and, if there are errors, their number.
\<close>

lemma batch_outcome_of_rendered_pages:
  assumes "pdf env pdfBuffer = Inr (map Inr pages)"
  shows "\<exists>rs errors w'.
           pageLoop env (map Inr pages) 0 [] [] (log_event (PdfToImg pdfBuffer) w)
             = (Inr (length pages, rs, errors), w')
         \<and> length rs + length errors = length pages
         \<and> extraction_calls (new_events w w') = length pages
         \<and> processPdf env pdfBuffer originalName w
            = (Inr (if rs = []
                    then \<lparr>success = False, message = lit_pdf_failed @ join (u '', '') errors,
                          data = None, results = None\<rparr>
                    else \<lparr>success = True,
                          message = u ''PDF '' @ showNumber (length pages) @ lit_pages_of
                            @ showNumber (length rs) @ lit_pages_saved
                            @ (if errors = [] then []
                               else u '' ('' @ showNumber (length errors) @ lit_pages_failed),
                          data = None, results = Some rs\<rparr>), w')"
proof -
  define w0 where "w0 = log_event (PdfToImg pdfBuffer) w"
  from pageLoop_rendered [of env pages 0 "[]" "[]" w0]
  obtain n rs errors w' where pl: "pageLoop env (map Inr pages) 0 [] [] w0 = (Inr (n, rs, errors), w')"
    by (metis prod.exhaust)
  from pageLoop_counts [OF pl] have n: "n = length pages"
    and len: "length rs + length errors = length pages"
    and c2: "extraction_calls (new_events w0 w') = length pages" by simp_all
  have "extends (\<lambda>e. True) w0 (snd (pageLoop env (map Inr pages) 0 [] [] w0))"
    by (rule extends_pageLoop) simp_all
  with pl have e2: "extends (\<lambda>e. True) w0 w'" by simp
  have e1: "extends (\<lambda>e. True) w w0" unfolding w0_def by (rule extends_log_event) simp
  have "new_events w w0 = [PdfToImg pdfBuffer]"
    by (rule new_eventsI) (simp add: w0_def log_event_def)
  with new_events_trans [OF e1 e2] c2
  have calls: "extraction_calls (new_events w w') = length pages"
    by (simp add: extraction_calls_def)
  have "processPdf env pdfBuffer originalName w
            = (Inr (if rs = []
                    then \<lparr>success = False, message = lit_pdf_failed @ join (u '', '') errors,
                          data = None, results = None\<rparr>
                    else \<lparr>success = True,
                          message = u ''PDF '' @ showNumber (length pages) @ lit_pages_of
                            @ showNumber (length rs) @ lit_pages_saved
                            @ (if errors = [] then []
                               else u '' ('' @ showNumber (length errors) @ lit_pages_failed),
                          data = None, results = Some rs\<rparr>), w')"
    using assms pl n by (simp add: processPdf_def w0_def [symmetric] failure_def)
  with pl n len calls show ?thesis unfolding w0_def by blast
qed

lemma example_page_filed:
  assumes l: "two_locations = locations env"
    and root: "ROOT_FOLDER_ID env = u ''root''"
    and store: "\<And>up. create_error env up = None"
    and r: "respond env (fetched w) (u ''asia-northeast1'')
            = \<lparr>status = 200, body_text = [], body_json = Data taxi\<rparr>"
    and f: "folders w = folders drive_world"
  shows "processPdf_page env pg n w =
     (Inr (taxi_page n),
      log_event (FilesCreate \<lparr>upload_name = r_fileName (taxi_page n), upload_parent = u ''taxi-old'',
                              upload_mimeType = u ''image/png'', upload_body = pg\<rparr>)
        (log_event (ListChildFolders (u ''old''))
          (log_event (FindFolder lit_legacy (u ''root''))
            (fetches [u ''asia-northeast1''] (log_event GetAccessToken w)))))"
proof -
  define w1 where "w1 = fetches [u ''asia-northeast1''] (log_event GetAccessToken w)"
  have f1: "folders w1 = folders drive_world" by (simp add: w1_def f)
  have a: "callGemini env w = (Inr taxi, w1)"
    unfolding w1_def using first_location_answers [OF l, of w]
    by (simp add: r answer_def ok_def)
  have b: "parentFolder env (orElse (data_date taxi) (today env)) w1
      = (Inr (u ''old''), log_event (FindFolder lit_legacy (u ''root'')) w1)"
    using drive_parent_2024 [OF f1 root] by (simp add: taxi_def orElse_def u_def)
  have c: "resolveCategoryFolder (orElse (data_category taxi) lit_sonota) (u ''old'')
        (log_event (FindFolder lit_legacy (u ''root'')) w1)
      = (Inr (u ''taxi-old''),
         log_event (ListChildFolders (u ''old'')) (log_event (FindFolder lit_legacy (u ''root'')) w1))"
    using drive_kotsuhi [of "log_event (FindFolder lit_legacy (u ''root'')) w1"] f1
    by (simp add: taxi_def orElse_def lit_kotsuhi_def)
  from processPdf_page_filed [OF a b c refl refl store, of pg n]
  show ?thesis
    by (simp add: w1_def taxi_page_def taxi_def orElse_def nullish_def lit_kotsuhi_def u_def)
qed

lemma three_pages_page:
  assumes "folders w = folders drive_world"
  shows "processPdf_page three_pages pg n w =
     (if fetched w = 1
      then (Inl (Error (u ''Vertex AI error ('' @ u ''500'' @ u ''): '' @ u ''boom'')),
            fetches [u ''asia-northeast1''] (log_event GetAccessToken w))
      else (Inr (taxi_page n),
            log_event (FilesCreate \<lparr>upload_name = r_fileName (taxi_page n), upload_parent = u ''taxi-old'',
                                    upload_mimeType = u ''image/png'', upload_body = pg\<rparr>)
              (log_event (ListChildFolders (u ''old''))
                (log_event (FindFolder lit_legacy (u ''root''))
                  (fetches [u ''asia-northeast1''] (log_event GetAccessToken w))))))"
proof -
  define w1 where "w1 = fetches [u ''asia-northeast1''] (log_event GetAccessToken w)"
  have l: "two_locations = locations three_pages" unfolding three_pages_def
    by (simp add: locations_def example_env_def GOOGLE_LOCATION_def orElse_def u_def two_locations_def)
  have root: "ROOT_FOLDER_ID three_pages = u ''root''" and today: "today three_pages = u ''2026-01-15''"
    and store: "\<And>up. create_error three_pages up = None"
    by (simp_all add: three_pages_def example_env_def)
  have f1: "folders w1 = folders drive_world" by (simp add: w1_def assms)
  show ?thesis
  proof (cases "fetched w = 1")
    case True
    then have r: "respond three_pages (fetched w) (u ''asia-northeast1'')
        = \<lparr>status = 500, body_text = u ''boom'', body_json = NoText\<rparr>"
      by (simp add: three_pages_def)
    have s: "showNumber 500 = u ''500''" by code_simp
    have "callGemini three_pages w
        = (Inl (Error (u ''Vertex AI error ('' @ u ''500'' @ u ''): '' @ u ''boom'')), w1)"
      unfolding w1_def using first_location_answers [OF l, of w]
      by (simp add: r answer_def ok_def s)
    with True show ?thesis by (simp add: processPdf_page_def w1_def)
  next
    case False
    then have r: "respond three_pages (fetched w) (u ''asia-northeast1'')
        = \<lparr>status = 200, body_text = [], body_json = Data taxi\<rparr>"
      by (simp add: three_pages_def)
    have a: "callGemini three_pages w = (Inr taxi, w1)"
      unfolding w1_def using first_location_answers [OF l, of w]
      by (simp add: r answer_def ok_def)
    have b: "parentFolder three_pages (orElse (data_date taxi) (today three_pages)) w1
        = (Inr (u ''old''), log_event (FindFolder lit_legacy (u ''root'')) w1)"
      using drive_parent_2024 [OF f1 root] by (simp add: taxi_def orElse_def u_def)
    have c: "resolveCategoryFolder (orElse (data_category taxi) lit_sonota) (u ''old'')
          (log_event (FindFolder lit_legacy (u ''root'')) w1)
        = (Inr (u ''taxi-old''),
           log_event (ListChildFolders (u ''old'')) (log_event (FindFolder lit_legacy (u ''root'')) w1))"
      using drive_kotsuhi [of "log_event (FindFolder lit_legacy (u ''root'')) w1"] f1
      by (simp add: taxi_def orElse_def lit_kotsuhi_def)
    from processPdf_page_filed [OF a b c refl refl store, of pg n] False
    show ?thesis
      by (simp add: w1_def taxi_page_def taxi_def orElse_def nullish_def lit_kotsuhi_def u_def)
  qed
qed

lemma three_pages_loop:
  "fst (pageLoop three_pages [Inr [1], Inr [2], Inr [3]] 0 [] [] (log_event (PdfToImg b) drive_world))
   = Inr (3, [taxi_page 1, taxi_page 3],
      [lit_page @ u ''2'' @ u '': '' @ u ''Vertex AI error ('' @ u ''500'' @ u ''): '' @ u ''boom''])"
proof -
  have z: "fetched drive_world = 0" by (simp add: drive_world_def)
  have two: "showNumber 2 = u ''2''" by code_simp
  have s23: "Suc (Suc 0) = 2" "Suc (Suc (Suc 0)) = 3" by simp_all
  show ?thesis
    by (simp add: three_pages_page z s23 two)
qed

text \<open>
  C5, at the input where the code fails it: a PDF of three pages whose second page the
  splitter cannot render. The first page is extracted and stored. Then the iterator
  rejects, outside the \<open>try\<close> block of the loop body: \<open>processPdf\<close> is left with the
  exception, and \<open>processReceipt\<close> reports a failure with the message of the renderer,
  without the record of the stored page. The third page is never processed: after the
  call of the splitter, the events are those of one page.
\<close>

theorem render_failure_aborts_batch:
  "pdf torn_pdf (file_bytes scan) = Inr [Inr [1], Inl (u ''render failed''), Inr [3]]
   \<and> fst (processReceipt torn_pdf (Some scan) drive_world)
      = \<lparr>success = False, message = u ''render failed'', data = None, results = None\<rparr>
   \<and> new_events drive_world (snd (processReceipt torn_pdf (Some scan) drive_world))
      = [PdfToImg (file_bytes scan), GetAccessToken, Fetch (u ''asia-northeast1''),
         FindFolder lit_legacy (u ''root''), ListChildFolders (u ''old''),
         FilesCreate \<lparr>upload_name = r_fileName (taxi_page 1), upload_parent = u ''taxi-old'',
                      upload_mimeType = u ''image/png'', upload_body = [1]\<rparr>]"
proof -
  define w0 where "w0 = log_event (PdfToImg (file_bytes scan)) drive_world"
  define w1 where "w1 = log_event (FilesCreate \<lparr>upload_name = r_fileName (taxi_page 1),
        upload_parent = u ''taxi-old'', upload_mimeType = u ''image/png'', upload_body = [1]\<rparr>)
        (log_event (ListChildFolders (u ''old''))
          (log_event (FindFolder lit_legacy (u ''root''))
            (fetches [u ''asia-northeast1''] (log_event GetAccessToken w0))))"
  have p: "pdf torn_pdf (file_bytes scan) = Inr [Inr [1], Inl (u ''render failed''), Inr [3]]"
    by (simp add: torn_pdf_def)
  have l: "two_locations = locations torn_pdf" unfolding torn_pdf_def
    by (simp add: locations_def example_env_def GOOGLE_LOCATION_def orElse_def u_def two_locations_def)
  have root: "ROOT_FOLDER_ID torn_pdf = u ''root''"
    and store: "\<And>up. create_error torn_pdf up = None"
    and r: "respond torn_pdf (fetched w0) (u ''asia-northeast1'')
            = \<lparr>status = 200, body_text = [], body_json = Data taxi\<rparr>"
    by (simp_all add: torn_pdf_def example_env_def)
  have f: "folders w0 = folders drive_world" by (simp add: w0_def)
  have page1: "processPdf_page torn_pdf [1] 1 w0 = (Inr (taxi_page 1), w1)"
    using example_page_filed [OF l root store r f, of "[1]" 1] by (simp add: w1_def)
  have loop: "pageLoop torn_pdf [Inr [1], Inl (u ''render failed''), Inr [3]] 0 [] [] w0
      = (Inl (Error (u ''render failed'')), w1)"
    using page1 by simp
  have size: "file_size scan \<noteq> 0" by (simp add: file_size_def scan_def)
  have ip: "isPdf torn_pdf scan"
    by (simp add: isPdf_def scan_def torn_pdf_def example_env_def endsWith_def u_def)
  have run: "processReceipt torn_pdf (Some scan) drive_world
      = (\<lparr>success = False, message = u ''render failed'', data = None, results = None\<rparr>, w1)"
    using size ip p loop
    by (simp add: processReceipt_def processPdf_def w0_def [symmetric] catch_all_def failure_def)
  have "events w1 = events drive_world @ [PdfToImg (file_bytes scan), GetAccessToken,
         Fetch (u ''asia-northeast1''), FindFolder lit_legacy (u ''root''), ListChildFolders (u ''old''),
         FilesCreate \<lparr>upload_name = r_fileName (taxi_page 1), upload_parent = u ''taxi-old'',
                      upload_mimeType = u ''image/png'', upload_body = [1]\<rparr>]"
    by (simp add: w1_def w0_def log_event_def fetches_def)
  then have "new_events drive_world w1 = [PdfToImg (file_bytes scan), GetAccessToken,
         Fetch (u ''asia-northeast1''), FindFolder lit_legacy (u ''root''), ListChildFolders (u ''old''),
         FilesCreate \<lparr>upload_name = r_fileName (taxi_page 1), upload_parent = u ''taxi-old'',
                      upload_mimeType = u ''image/png'', upload_body = [1]\<rparr>]"
    by (rule new_eventsI)
  with p run show ?thesis by simp
qed

section \<open>File names\<close>

lemma image_name:
  assumes "processReceipt_image env file w = (Inr r, w')"
  shows "success r \<and> (\<exists>rd up w3. data r = Some rd \<and> w' = log_event (FilesCreate up) w3
           \<and> upload_name up = r_fileName rd \<and> upload_body up = file_bytes file
           \<and> r_fileName rd = r_date rd @ u ''_'' @ r_category rd @ u ''_''
                @ orElse (Some (r_vendor rd)) lit_fumei @ u ''.jpg'')"
proof -
  from processReceipt_image_success [OF assms]
  obtain d w1 p w2 t w3 name up where
    h: "callGemini env w = (Inr d, w1)"
       "parentFolder env (orElse (data_date d) (today env)) w1 = (Inr p, w2)"
       "resolveCategoryFolder (orElse (data_category d) lit_sonota) p w2 = (Inr t, w3)"
       "name = orElse (data_date d) (today env) @ u ''_'' @ orElse (data_category d) lit_sonota
               @ u ''_'' @ orElse (data_vendor d) lit_fumei @ u ''.jpg''"
       "up = \<lparr>upload_name = name, upload_parent = t,
               upload_mimeType = orElse (Some (file_type file)) (u ''image/jpeg''),
               upload_body = file_bytes file\<rparr>"
       "create_error env up = None"
    by blast
  from processReceipt_image_filed [OF h] assms
  have r: "r = \<lparr>success = True, message = [0x300C] @ name @ lit_saved,
                 data = Some \<lparr>r_date = orElse (data_date d) (today env),
                              r_amount = nullish (data_amount d) 0,
                              r_vendor = nullish (data_vendor d) lit_fumei,
                              r_category = orElse (data_category d) lit_sonota,
                              r_fileName = name\<rparr>,
                 results = None\<rparr>" and w: "w' = log_event (FilesCreate up) w3"
    by simp_all
  have "\<exists>rd up w3. data r = Some rd \<and> w' = log_event (FilesCreate up) w3
           \<and> upload_name up = r_fileName rd \<and> upload_body up = file_bytes file
           \<and> r_fileName rd = r_date rd @ u ''_'' @ r_category rd @ u ''_''
                @ orElse (Some (r_vendor rd)) lit_fumei @ u ''.jpg''"
    by (rule exI [of _ "\<lparr>r_date = orElse (data_date d) (today env),
                              r_amount = nullish (data_amount d) 0,
                              r_vendor = nullish (data_vendor d) lit_fumei,
                              r_category = orElse (data_category d) lit_sonota,
                              r_fileName = name\<rparr>"], rule exI [of _ up], rule exI [of _ w3])
      (simp add: r w h(4,5) vendor_in_name)
  then show ?thesis by (simp add: r)
qed

lemma page_name:
  assumes "processPdf_page env pg n w = (Inr rd, w')"
  shows "\<exists>up w3. w' = log_event (FilesCreate up) w3
           \<and> upload_name up = r_fileName rd \<and> upload_body up = pg
           \<and> r_fileName rd = r_date rd @ u ''_'' @ r_category rd @ u ''_''
                @ orElse (Some (r_vendor rd)) lit_fumei @ u ''_p'' @ showNumber n @ u ''.png''"
proof -
  from processPdf_page_success [OF assms]
  obtain d w1 p w2 t w3 name up where
    h: "callGemini env w = (Inr d, w1)"
       "parentFolder env (orElse (data_date d) (today env)) w1 = (Inr p, w2)"
       "resolveCategoryFolder (orElse (data_category d) lit_sonota) p w2 = (Inr t, w3)"
       "name = orElse (data_date d) (today env) @ u ''_'' @ orElse (data_category d) lit_sonota
               @ u ''_'' @ orElse (data_vendor d) lit_fumei @ u ''_p'' @ showNumber n @ u ''.png''"
       "up = \<lparr>upload_name = name, upload_parent = t, upload_mimeType = u ''image/png'',
               upload_body = pg\<rparr>"
       "create_error env up = None"
    by blast
  from processPdf_page_filed [OF h] assms
  have r: "rd = \<lparr>r_date = orElse (data_date d) (today env),
                 r_amount = nullish (data_amount d) 0,
                 r_vendor = nullish (data_vendor d) lit_fumei,
                 r_category = orElse (data_category d) lit_sonota,
                 r_fileName = name\<rparr>" and w: "w' = log_event (FilesCreate up) w3"
    by simp_all
  show ?thesis
    by (rule exI [of _ up], rule exI [of _ w3]) (simp add: r w h(4,5) vendor_in_name)
qed

lemma events_grow: "extends P w w' \<Longrightarrow> set (events w) \<subseteq> set (events w')"
  by (metis extends_def set_append sup_ge1)

lemma pageLoop_stored:
  "pageLoop env items n rs0 es0 w = (Inr (n', rs, es), w') \<Longrightarrow>
   \<forall>rd\<in>set rs. rd \<in> set rs0 \<or>
     (\<exists>k<length items. \<exists>up. FilesCreate up \<in> set (events w') \<and> items ! k = Inr (upload_body up)
        \<and> upload_name up = r_fileName rd
        \<and> r_fileName rd = r_date rd @ u ''_'' @ r_category rd @ u ''_''
             @ orElse (Some (r_vendor rd)) lit_fumei @ u ''_p'' @ showNumber (n + k + 1) @ u ''.png'')"
proof (induction items arbitrary: n rs0 es0 w)
  case Nil
  then show ?case by simp
next
  case (Cons item items)
  have shift: "\<And>rd. (\<exists>k<length items. \<exists>up. FilesCreate up \<in> set (events w') \<and> items ! k = Inr (upload_body up)
        \<and> upload_name up = r_fileName rd
        \<and> r_fileName rd = r_date rd @ u ''_'' @ r_category rd @ u ''_''
             @ orElse (Some (r_vendor rd)) lit_fumei @ u ''_p'' @ showNumber (n + 1 + k + 1) @ u ''.png'')
     \<Longrightarrow> (\<exists>k<length (item # items). \<exists>up. FilesCreate up \<in> set (events w')
        \<and> (item # items) ! k = Inr (upload_body up)
        \<and> upload_name up = r_fileName rd
        \<and> r_fileName rd = r_date rd @ u ''_'' @ r_category rd @ u ''_''
             @ orElse (Some (r_vendor rd)) lit_fumei @ u ''_p'' @ showNumber (n + k + 1) @ u ''.png'')"
  proof -
    fix rd
    assume "\<exists>k<length items. \<exists>up. FilesCreate up \<in> set (events w') \<and> items ! k = Inr (upload_body up)
        \<and> upload_name up = r_fileName rd
        \<and> r_fileName rd = r_date rd @ u ''_'' @ r_category rd @ u ''_''
             @ orElse (Some (r_vendor rd)) lit_fumei @ u ''_p'' @ showNumber (n + 1 + k + 1) @ u ''.png''"
    then obtain k up where k: "k < length items" "FilesCreate up \<in> set (events w')"
      "items ! k = Inr (upload_body up)" "upload_name up = r_fileName rd"
      "r_fileName rd = r_date rd @ u ''_'' @ r_category rd @ u ''_''
             @ orElse (Some (r_vendor rd)) lit_fumei @ u ''_p'' @ showNumber (n + 1 + k + 1) @ u ''.png''"
      by blast
    then have "Suc k < length (item # items) \<and> FilesCreate up \<in> set (events w')
        \<and> (item # items) ! Suc k = Inr (upload_body up) \<and> upload_name up = r_fileName rd
        \<and> r_fileName rd = r_date rd @ u ''_'' @ r_category rd @ u ''_''
             @ orElse (Some (r_vendor rd)) lit_fumei @ u ''_p'' @ showNumber (n + Suc k + 1) @ u ''.png''"
      by simp
    then show "\<exists>k<length (item # items). \<exists>up. FilesCreate up \<in> set (events w')
        \<and> (item # items) ! k = Inr (upload_body up)
        \<and> upload_name up = r_fileName rd
        \<and> r_fileName rd = r_date rd @ u ''_'' @ r_category rd @ u ''_''
             @ orElse (Some (r_vendor rd)) lit_fumei @ u ''_p'' @ showNumber (n + k + 1) @ u ''.png''"
      by blast
  qed
  show ?case
  proof (cases item)
    case (Inl msg)
    with Cons.prems show ?thesis by simp
  next
    case item: (Inr pg)
    obtain r w1 where s: "processPdf_page env pg (n + 1) w = (r, w1)"
      by (cases "processPdf_page env pg (n + 1) w")
    show ?thesis
    proof (cases r)
      case (Inl e)
      with s item Cons.prems have "pageLoop env items (n + 1) rs0
          (es0 @ [lit_page @ showNumber (n + 1) @ u '': '' @ exn_message e]) w1 = (Inr (n', rs, es), w')"
        by simp
      from Cons.IH [OF this] shift show ?thesis by blast
    next
      case (Inr rd0)
      with s item Cons.prems
      have pl: "pageLoop env items (n + 1) (rs0 @ [rd0]) es0 w1 = (Inr (n', rs, es), w')"
        by simp
      from s Inr page_name [of env pg "n + 1" w rd0 w1]
      obtain up w3 where up: "w1 = log_event (FilesCreate up) w3" "upload_name up = r_fileName rd0"
        "upload_body up = pg"
        "r_fileName rd0 = r_date rd0 @ u ''_'' @ r_category rd0 @ u ''_''
                  @ orElse (Some (r_vendor rd0)) lit_fumei @ u ''_p'' @ showNumber (n + 1) @ u ''.png''"
        by blast
      have "extends (\<lambda>e. True) w1 (snd (pageLoop env items (n + 1) (rs0 @ [rd0]) es0 w1))"
        by (rule extends_pageLoop) simp_all
      with pl have "extends (\<lambda>e. True) w1 w'" by simp
      from events_grow [OF this] up(1) have "FilesCreate up \<in> set (events w')"
        by (auto simp: log_event_def)
      with up item have here: "0 < length (item # items) \<and> FilesCreate up \<in> set (events w')
          \<and> (item # items) ! 0 = Inr (upload_body up) \<and> upload_name up = r_fileName rd0
          \<and> r_fileName rd0 = r_date rd0 @ u ''_'' @ r_category rd0 @ u ''_''
               @ orElse (Some (r_vendor rd0)) lit_fumei @ u ''_p'' @ showNumber (n + 0 + 1) @ u ''.png''"
        by simp
      show ?thesis
      proof
        fix rd assume "rd \<in> set rs"
        with Cons.IH [OF pl] have "rd \<in> set rs0 \<or> rd = rd0 \<or>
          (\<exists>k<length items. \<exists>up. FilesCreate up \<in> set (events w') \<and> items ! k = Inr (upload_body up)
          \<and> upload_name up = r_fileName rd
          \<and> r_fileName rd = r_date rd @ u ''_'' @ r_category rd @ u ''_''
               @ orElse (Some (r_vendor rd)) lit_fumei @ u ''_p'' @ showNumber (n + 1 + k + 1) @ u ''.png'')"
          by auto
        with shift [of rd] here
        show "rd \<in> set rs0 \<or> (\<exists>k<length (item # items). \<exists>up. FilesCreate up \<in> set (events w')
          \<and> (item # items) ! k = Inr (upload_body up)
          \<and> upload_name up = r_fileName rd
          \<and> r_fileName rd = r_date rd @ u ''_'' @ r_category rd @ u ''_''
               @ orElse (Some (r_vendor rd)) lit_fumei @ u ''_p'' @ showNumber (n + k + 1) @ u ''.png'')"
          by blast
      qed
    qed
  qed
qed

lemma three_pages_result:
  "fst (processPdf three_pages b name drive_world)
      = Inr \<lparr>success = True,
             message = u ''PDF '' @ u ''3'' @ lit_pages_of @ u ''2'' @ lit_pages_saved
                        @ u '' ('' @ u ''1'' @ lit_pages_failed,
             data = None, results = Some [taxi_page 1, taxi_page 3]\<rparr>"
proof -
  have p: "pdf three_pages b = Inr [Inr [1], Inr [2], Inr [3]]" by (simp add: three_pages_def)
  have n: "showNumber 3 = u ''3''" "showNumber 2 = u ''2''" "showNumber (Suc 0) = u ''1''" by code_simp+
  have s23: "Suc (Suc 0) = 2" by simp
  obtain w1 where pl: "pageLoop three_pages [Inr [1], Inr [2], Inr [3]] 0 [] []
        (log_event (PdfToImg b) drive_world)
      = (Inr (3, [taxi_page 1, taxi_page 3],
          [lit_page @ u ''2'' @ u '': '' @ u ''Vertex AI error ('' @ u ''500'' @ u ''): '' @ u ''boom'']), w1)"
    using three_pages_loop [of b] by (metis prod.collapse)
  have "fst (processPdf three_pages b name drive_world)
      = fst (case (Inr (3, [taxi_page 1, taxi_page 3],
          [lit_page @ u ''2'' @ u '': '' @ u ''Vertex AI error ('' @ u ''500'' @ u ''): '' @ u ''boom'']), w1) of
            (Inl e, w1) \<Rightarrow> (Inl e, w1)
          | (Inr (pageNum, rs, errors), w1) \<Rightarrow>
              if length rs = 0 then (Inr (failure (lit_pdf_failed @ join (u '', '') errors)), w1)
              else (Inr \<lparr>success = True,
                         message = u ''PDF '' @ showNumber pageNum @ lit_pages_of
                            @ showNumber (length rs) @ lit_pages_saved
                            @ (if length errors > 0
                               then u '' ('' @ showNumber (length errors) @ lit_pages_failed else []),
                         data = None, results = Some rs\<rparr>, w1))"
    by (simp only: processPdf_def p sum.case pl)
  then show ?thesis by (simp add: n s23)
qed

lemma example_image:
  "processReceipt_image example_env photo drive_world
   = (Inr \<lparr>success = True,
           message = [0x300C] @ (u ''2024-03-05_'' @ lit_kotsuhi @ u ''_Example Taxi.jpg'') @ lit_saved,
           data = Some \<lparr>r_date = u ''2024-03-05'', r_amount = 1200, r_vendor = u ''Example Taxi'',
                        r_category = lit_kotsuhi,
                        r_fileName = u ''2024-03-05_'' @ lit_kotsuhi @ u ''_Example Taxi.jpg''\<rparr>,
           results = None\<rparr>,
      log_event (FilesCreate \<lparr>upload_name = u ''2024-03-05_'' @ lit_kotsuhi @ u ''_Example Taxi.jpg'',
                              upload_parent = u ''taxi-old'', upload_mimeType = u ''image/jpeg'',
                              upload_body = file_bytes photo\<rparr>)
        (log_event (ListChildFolders (u ''old''))
          (log_event (FindFolder lit_legacy (u ''root''))
            (fetches [u ''asia-northeast1''] (log_event GetAccessToken drive_world)))))"
proof -
  define w1 where "w1 = fetches [u ''asia-northeast1''] (log_event GetAccessToken drive_world)"
  have l: "two_locations = locations example_env"
    by (simp add: locations_def example_env_def GOOGLE_LOCATION_def orElse_def u_def two_locations_def)
  have root: "ROOT_FOLDER_ID example_env = u ''root''"
    and store: "\<And>up. create_error example_env up = None"
    by (simp_all add: example_env_def)
  have f1: "folders w1 = folders drive_world" by (simp add: w1_def)
  have r: "respond example_env (fetched drive_world) (u ''asia-northeast1'')
        = \<lparr>status = 200, body_text = [], body_json = Data taxi\<rparr>"
    by (simp add: example_env_def)
  have a: "callGemini example_env drive_world = (Inr taxi, w1)"
    unfolding w1_def using first_location_answers [OF l, of drive_world]
    by (simp add: r answer_def ok_def)
  have b: "parentFolder example_env (orElse (data_date taxi) (today example_env)) w1
        = (Inr (u ''old''), log_event (FindFolder lit_legacy (u ''root'')) w1)"
    using drive_parent_2024 [OF f1 root] by (simp add: taxi_def orElse_def u_def)
  have c: "resolveCategoryFolder (orElse (data_category taxi) lit_sonota) (u ''old'')
          (log_event (FindFolder lit_legacy (u ''root'')) w1)
        = (Inr (u ''taxi-old''),
           log_event (ListChildFolders (u ''old'')) (log_event (FindFolder lit_legacy (u ''root'')) w1))"
    using drive_kotsuhi [of "log_event (FindFolder lit_legacy (u ''root'')) w1"] f1
    by (simp add: taxi_def orElse_def lit_kotsuhi_def)
  from processReceipt_image_filed [OF a b c refl refl store, of photo]
  show ?thesis
    by (simp add: w1_def taxi_def orElse_def nullish_def lit_kotsuhi_def photo_def u_def)
qed

lemma example_no_vendor:
  "processReceipt_image env_no_vendor photo drive_world
   = (Inr \<lparr>success = True,
           message = [0x300C] @ (u ''2024-03-05_'' @ lit_kotsuhi @ u ''_'' @ lit_fumei @ u ''.jpg'')
                      @ lit_saved,
           data = Some \<lparr>r_date = u ''2024-03-05'', r_amount = 1200, r_vendor = [],
                        r_category = lit_kotsuhi,
                        r_fileName = u ''2024-03-05_'' @ lit_kotsuhi @ u ''_'' @ lit_fumei @ u ''.jpg''\<rparr>,
           results = None\<rparr>,
      log_event (FilesCreate \<lparr>upload_name = u ''2024-03-05_'' @ lit_kotsuhi @ u ''_'' @ lit_fumei @ u ''.jpg'',
                              upload_parent = u ''taxi-old'', upload_mimeType = u ''image/jpeg'',
                              upload_body = file_bytes photo\<rparr>)
        (log_event (ListChildFolders (u ''old''))
          (log_event (FindFolder lit_legacy (u ''root''))
            (fetches [u ''asia-northeast1''] (log_event GetAccessToken drive_world)))))"
proof -
  define d where "d = taxi\<lparr>data_vendor := Some []\<rparr>"
  define w1 where "w1 = fetches [u ''asia-northeast1''] (log_event GetAccessToken drive_world)"
  have l: "two_locations = locations env_no_vendor" unfolding env_no_vendor_def
    by (simp add: locations_def example_env_def GOOGLE_LOCATION_def orElse_def u_def two_locations_def)
  have root: "ROOT_FOLDER_ID env_no_vendor = u ''root''"
    and store: "\<And>up. create_error env_no_vendor up = None"
    by (simp_all add: env_no_vendor_def example_env_def)
  have f1: "folders w1 = folders drive_world" by (simp add: w1_def)
  have r: "respond env_no_vendor (fetched drive_world) (u ''asia-northeast1'')
        = \<lparr>status = 200, body_text = [], body_json = Data d\<rparr>"
    by (simp add: env_no_vendor_def d_def)
  have a: "callGemini env_no_vendor drive_world = (Inr d, w1)"
    unfolding w1_def using first_location_answers [OF l, of drive_world]
    by (simp add: r answer_def ok_def)
  have b: "parentFolder env_no_vendor (orElse (data_date d) (today env_no_vendor)) w1
        = (Inr (u ''old''), log_event (FindFolder lit_legacy (u ''root'')) w1)"
    using drive_parent_2024 [OF f1 root] by (simp add: d_def taxi_def orElse_def u_def)
  have c: "resolveCategoryFolder (orElse (data_category d) lit_sonota) (u ''old'')
          (log_event (FindFolder lit_legacy (u ''root'')) w1)
        = (Inr (u ''taxi-old''),
           log_event (ListChildFolders (u ''old'')) (log_event (FindFolder lit_legacy (u ''root'')) w1))"
    using drive_kotsuhi [of "log_event (FindFolder lit_legacy (u ''root'')) w1"] f1
    by (simp add: d_def taxi_def orElse_def lit_kotsuhi_def)
  from processReceipt_image_filed [OF a b c refl refl store, of photo]
  show ?thesis
    by (simp add: w1_def d_def taxi_def orElse_def nullish_def lit_kotsuhi_def photo_def u_def)
qed

text \<open>
  C7, as stated, fails: the name is not always made of the fields of the metadata. When
  the extraction gives the empty string as vendor, the record returned has that empty
  vendor (\<open>data.vendor ?? ...\<close>), while the name under which the image is stored has
  "fumei" in the place of the vendor (\<open>data.vendor || ...\<close>): it is not
  \<open>{date}_{category}_{vendor}.jpg\<close> for the vendor of the record.
\<close>

theorem empty_vendor_counterexample:
  "fst (processReceipt env_no_vendor (Some photo) drive_world)
     = \<lparr>success = True,
        message = [0x300C] @ (u ''2024-03-05_'' @ lit_kotsuhi @ u ''_'' @ lit_fumei @ u ''.jpg'')
                   @ lit_saved,
        data = Some \<lparr>r_date = u ''2024-03-05'', r_amount = 1200, r_vendor = [],
                     r_category = lit_kotsuhi,
                     r_fileName = u ''2024-03-05_'' @ lit_kotsuhi @ u ''_'' @ lit_fumei @ u ''.jpg''\<rparr>,
        results = None\<rparr>
   \<and> u ''2024-03-05_'' @ lit_kotsuhi @ u ''_'' @ lit_fumei @ u ''.jpg''
       \<noteq> u ''2024-03-05'' @ u ''_'' @ lit_kotsuhi @ u ''_'' @ [] @ u ''.jpg''"
proof -
  have sp: "file_size photo \<noteq> 0" by (simp add: file_size_def photo_def)
  have np: "\<not> isPdf env_no_vendor photo"
    by (simp add: isPdf_def photo_def env_no_vendor_def example_env_def endsWith_def u_def)
  have "processReceipt env_no_vendor (Some photo) drive_world
      = catch_all (processReceipt_image env_no_vendor photo drive_world)"
    using sp np by (simp add: processReceipt_def)
  then have "fst (processReceipt env_no_vendor (Some photo) drive_world)
     = \<lparr>success = True,
        message = [0x300C] @ (u ''2024-03-05_'' @ lit_kotsuhi @ u ''_'' @ lit_fumei @ u ''.jpg'')
                   @ lit_saved,
        data = Some \<lparr>r_date = u ''2024-03-05'', r_amount = 1200, r_vendor = [],
                     r_category = lit_kotsuhi,
                     r_fileName = u ''2024-03-05_'' @ lit_kotsuhi @ u ''_'' @ lit_fumei @ u ''.jpg''\<rparr>,
        results = None\<rparr>"
    by (simp add: example_no_vendor catch_all_def)
  moreover have "u ''2024-03-05_'' @ lit_kotsuhi @ u ''_'' @ lit_fumei @ u ''.jpg''
       \<noteq> u ''2024-03-05'' @ u ''_'' @ lit_kotsuhi @ u ''_'' @ [] @ u ''.jpg''"
    by (simp add: u_def lit_fumei_def)
  ultimately show ?thesis by (rule conjI)
qed

text \<open>
  C7, amended: whenever \<open>processReceipt\<close> succeeds on a non-empty file, the names are those
  of the convention, with "fumei" in the place of an empty vendor. For an image, the record
  has the name \<open>{date}_{category}_{vendor}.jpg\<close>, and the last thing done was to store the
  uploaded bytes under that name. For a PDF, every record has the name
  \<open>{date}_{category}_{vendor}_p{k + 1}.png\<close> where \<open>k\<close> (counted from 0) is the position of
  a page among the steps of the page iterator, and the bytes of that page have been stored
  under that name. Here \<open>{date}\<close> and \<open>{category}\<close> are those of the record, and \<open>{vendor}\<close> is
  the vendor of the record, or "fumei" when that is empty.
\<close>

theorem file_name_convention:
  assumes "file_size file \<noteq> 0"
    and "processReceipt env (Some file) w = (r, w')"
    and "success r"
  shows "(\<not> (file_type file = u ''application/pdf''
             \<or> endsWith (toLowerCase env (file_name file)) (u ''.pdf'')) \<longrightarrow>
          (\<exists>rd up w3. data r = Some rd \<and> w' = log_event (FilesCreate up) w3
             \<and> upload_name up = r_fileName rd \<and> upload_body up = file_bytes file
             \<and> r_fileName rd = r_date rd @ u ''_'' @ r_category rd @ u ''_''
                  @ orElse (Some (r_vendor rd)) lit_fumei @ u ''.jpg''))
       \<and> ((file_type file = u ''application/pdf''
             \<or> endsWith (toLowerCase env (file_name file)) (u ''.pdf''))
            \<and> pdf env (file_bytes file) = Inr items \<longrightarrow>
          (\<exists>rs. results r = Some rs \<and>
             (\<forall>rd\<in>set rs. \<exists>k<length items. \<exists>up. FilesCreate up \<in> set (events w')
                \<and> items ! k = Inr (upload_body up) \<and> upload_name up = r_fileName rd
                \<and> r_fileName rd = r_date rd @ u ''_'' @ r_category rd @ u ''_''
                     @ orElse (Some (r_vendor rd)) lit_fumei @ u ''_p'' @ showNumber (k + 1) @ u ''.png'')))"
proof (intro conjI impI)
  assume np: "\<not> (file_type file = u ''application/pdf''
             \<or> endsWith (toLowerCase env (file_name file)) (u ''.pdf''))"
  with assms(1,2) have c: "catch_all (processReceipt_image env file w) = (r, w')"
    by (simp add: processReceipt_def isPdf_def)
  obtain x w1 where x: "processReceipt_image env file w = (x, w1)"
    by (cases "processReceipt_image env file w")
  with c assms(3) have "processReceipt_image env file w = (Inr r, w')"
    by (cases x) (auto simp: catch_all_def failure_def)
  from image_name [OF this]
  show "\<exists>rd up w3. data r = Some rd \<and> w' = log_event (FilesCreate up) w3
             \<and> upload_name up = r_fileName rd \<and> upload_body up = file_bytes file
             \<and> r_fileName rd = r_date rd @ u ''_'' @ r_category rd @ u ''_''
                  @ orElse (Some (r_vendor rd)) lit_fumei @ u ''.jpg''"
    by simp
next
  assume h: "(file_type file = u ''application/pdf''
             \<or> endsWith (toLowerCase env (file_name file)) (u ''.pdf''))
            \<and> pdf env (file_bytes file) = Inr items"
  with assms(1,2) have c: "catch_all (processPdf env (file_bytes file) (file_name file) w) = (r, w')"
    by (simp add: processReceipt_def isPdf_def)
  obtain x w1 where pl0: "pageLoop env items 0 [] [] (log_event (PdfToImg (file_bytes file)) w) = (x, w1)"
    by (metis prod.exhaust)
  with h c assms(3) obtain n rs es where x: "x = Inr (n, rs, es)"
    by (cases x) (auto simp: processPdf_def catch_all_def failure_def)
  with pl0 have pl: "pageLoop env items 0 [] [] (log_event (PdfToImg (file_bytes file)) w)
      = (Inr (n, rs, es), w1)" by simp
  with h c assms(3) have res: "results r = Some rs" and w: "w1 = w'"
    by (auto simp: processPdf_def catch_all_def failure_def split: if_splits)
  from pageLoop_stored [OF pl] w
  have "\<forall>rd\<in>set rs. \<exists>k<length items. \<exists>up. FilesCreate up \<in> set (events w')
                \<and> items ! k = Inr (upload_body up) \<and> upload_name up = r_fileName rd
                \<and> r_fileName rd = r_date rd @ u ''_'' @ r_category rd @ u ''_''
                     @ orElse (Some (r_vendor rd)) lit_fumei @ u ''_p'' @ showNumber (k + 1) @ u ''.png''"
    by simp
  with res show "\<exists>rs. results r = Some rs \<and>
             (\<forall>rd\<in>set rs. \<exists>k<length items. \<exists>up. FilesCreate up \<in> set (events w')
                \<and> items ! k = Inr (upload_body up) \<and> upload_name up = r_fileName rd
                \<and> r_fileName rd = r_date rd @ u ''_'' @ r_category rd @ u ''_''
                     @ orElse (Some (r_vendor rd)) lit_fumei @ u ''_p'' @ showNumber (k + 1) @ u ''.png'')"
    by blast
qed

theorem file_name_convention_witness:
  "file_size photo \<noteq> 0
   \<and> fst (processReceipt example_env (Some photo) drive_world)
      = \<lparr>success = True,
          message = [0x300C] @ (u ''2024-03-05_'' @ lit_kotsuhi @ u ''_Example Taxi.jpg'') @ lit_saved,
          data = Some \<lparr>r_date = u ''2024-03-05'', r_amount = 1200, r_vendor = u ''Example Taxi'',
                       r_category = lit_kotsuhi,
                       r_fileName = u ''2024-03-05_'' @ lit_kotsuhi @ u ''_Example Taxi.jpg''\<rparr>,
          results = None\<rparr>
   \<and> (\<exists>rd up w3. data (fst (processReceipt example_env (Some photo) drive_world)) = Some rd
          \<and> snd (processReceipt example_env (Some photo) drive_world) = log_event (FilesCreate up) w3
          \<and> upload_name up = r_fileName rd \<and> upload_body up = file_bytes photo
          \<and> r_fileName rd = r_date rd @ u ''_'' @ r_category rd @ u ''_''
               @ orElse (Some (r_vendor rd)) lit_fumei @ u ''.jpg'')
   \<and> file_size scan \<noteq> 0
   \<and> pdf three_pages (file_bytes scan) = Inr [Inr [1], Inr [2], Inr [3]]
   \<and> results (fst (processReceipt three_pages (Some scan) drive_world)) = Some [taxi_page 1, taxi_page 3]
   \<and> (\<exists>k<length [Inr [1::nat], Inr [2], Inr [3] :: jsstring + buffer]. \<exists>up.
          FilesCreate up \<in> set (events (snd (processReceipt three_pages (Some scan) drive_world)))
        \<and> [Inr [1], Inr [2], Inr [3]] ! k = (Inr (upload_body up) :: jsstring + buffer)
        \<and> upload_name up = r_fileName (taxi_page 3)
        \<and> r_fileName (taxi_page 3) = r_date (taxi_page 3) @ u ''_'' @ r_category (taxi_page 3) @ u ''_''
             @ orElse (Some (r_vendor (taxi_page 3))) lit_fumei @ u ''_p'' @ showNumber (k + 1) @ u ''.png'')"
proof -
  have sp: "file_size photo \<noteq> 0" by (simp add: file_size_def photo_def)
  have ss: "file_size scan \<noteq> 0" by (simp add: file_size_def scan_def)
  have np: "\<not> (file_type photo = u ''application/pdf''
             \<or> endsWith (toLowerCase example_env (file_name photo)) (u ''.pdf''))"
    by (simp add: photo_def example_env_def endsWith_def u_def)
  have ip: "file_type scan = u ''application/pdf''
             \<or> endsWith (toLowerCase three_pages (file_name scan)) (u ''.pdf'')"
    by (simp add: scan_def three_pages_def example_env_def endsWith_def u_def)
  have pages: "pdf three_pages (file_bytes scan) = Inr [Inr [1], Inr [2], Inr [3]]"
    by (simp add: three_pages_def)
  have r1: "processReceipt example_env (Some photo) drive_world
      = catch_all (processReceipt_image example_env photo drive_world)"
    using sp np by (simp add: processReceipt_def isPdf_def)
  have f1: "fst (processReceipt example_env (Some photo) drive_world)
      = \<lparr>success = True,
          message = [0x300C] @ (u ''2024-03-05_'' @ lit_kotsuhi @ u ''_Example Taxi.jpg'') @ lit_saved,
          data = Some \<lparr>r_date = u ''2024-03-05'', r_amount = 1200, r_vendor = u ''Example Taxi'',
                       r_category = lit_kotsuhi,
                       r_fileName = u ''2024-03-05_'' @ lit_kotsuhi @ u ''_Example Taxi.jpg''\<rparr>,
          results = None\<rparr>"
    unfolding r1 example_image by (simp add: catch_all_def)
  then have s1: "success (fst (processReceipt example_env (Some photo) drive_world))" by simp
  have p1: "processReceipt example_env (Some photo) drive_world
      = (fst (processReceipt example_env (Some photo) drive_world),
         snd (processReceipt example_env (Some photo) drive_world))" by simp
  note image = file_name_convention [OF sp p1 s1, THEN conjunct1, THEN mp, OF np]
  have r2: "processReceipt three_pages (Some scan) drive_world
      = catch_all (processPdf three_pages (file_bytes scan) (file_name scan) drive_world)"
    using ss ip by (simp add: processReceipt_def isPdf_def)
  have f2: "fst (processReceipt three_pages (Some scan) drive_world)
      = \<lparr>success = True,
             message = u ''PDF '' @ u ''3'' @ lit_pages_of @ u ''2'' @ lit_pages_saved
                        @ u '' ('' @ u ''1'' @ lit_pages_failed,
             data = None, results = Some [taxi_page 1, taxi_page 3]\<rparr>"
    using three_pages_result [of "file_bytes scan" "file_name scan"]
    unfolding r2 by (cases "processPdf three_pages (file_bytes scan) (file_name scan) drive_world")
      (simp add: catch_all_def)
  then have s2: "success (fst (processReceipt three_pages (Some scan) drive_world))"
    and res: "results (fst (processReceipt three_pages (Some scan) drive_world))
              = Some [taxi_page 1, taxi_page 3]" by simp_all
  have p2: "processReceipt three_pages (Some scan) drive_world
      = (fst (processReceipt three_pages (Some scan) drive_world),
         snd (processReceipt three_pages (Some scan) drive_world))" by simp
  from file_name_convention [OF ss p2 s2, THEN conjunct2, THEN mp, OF conjI [OF ip pages]] res
  have batch: "\<exists>k<length [Inr [1::nat], Inr [2], Inr [3] :: jsstring + buffer]. \<exists>up.
          FilesCreate up \<in> set (events (snd (processReceipt three_pages (Some scan) drive_world)))
        \<and> [Inr [1], Inr [2], Inr [3]] ! k = (Inr (upload_body up) :: jsstring + buffer)
        \<and> upload_name up = r_fileName (taxi_page 3)
        \<and> r_fileName (taxi_page 3) = r_date (taxi_page 3) @ u ''_'' @ r_category (taxi_page 3) @ u ''_''
             @ orElse (Some (r_vendor (taxi_page 3))) lit_fumei @ u ''_p'' @ showNumber (k + 1) @ u ''.png''"
    by auto
  from sp f1 image ss pages res batch show ?thesis by (intro conjI)
qed

section \<open>The branch on the kind of file\<close>

lemma locationLoop_starts:
  "\<exists>evs. new_events w (snd (locationLoop env (l # ls) t w)) = Fetch l # evs"
proof -
  define w1 where "w1 = snd (fetch env l w)"
  have e1: "extends (\<lambda>e. True) w w1" unfolding w1_def by (rule extends_fetch) simp
  have n1: "new_events w w1 = [Fetch l]" by (rule new_eventsI) (simp add: w1_def fetch_def)
  have "extends (\<lambda>e. True) w1 (snd (locationLoop env (l # ls) t w))"
  proof (cases "status (fst (fetch env l w)) = 429")
    case True
    then have "snd (locationLoop env (l # ls) t w)
      = snd (locationLoop env ls (Some (body_text (fst (fetch env l w)))) w1)"
      by (simp add: Let_def w1_def)
    then show ?thesis by (simp add: extends_locationLoop)
  next
    case False
    then have "snd (locationLoop env (l # ls) t w) = w1"
      by (simp add: Let_def w1_def split: payload.splits)
    then show ?thesis by simp
  qed
  from new_events_trans [OF e1 this] n1 show ?thesis by simp
qed

lemma attemptLoop_starts:
  "\<exists>evs. new_events w (snd (attemptLoop env (l # ls) (a # as) w)) = Fetch l # evs"
proof -
  obtain r w1 where ll: "locationLoop env (l # ls) None w = (r, w1)"
    by (cases "locationLoop env (l # ls) None w")
  from locationLoop_starts [of w env l ls None] ll
  obtain evs where n1: "new_events w w1 = Fetch l # evs" by auto
  have e1: "extends (\<lambda>e. True) w w1"
    using extends_locationLoop [of "\<lambda>e. True" w env "l # ls" None] ll by simp
  have "extends (\<lambda>e. True) w1 (snd (attemptLoop env (l # ls) (a # as) w))"
  proof (cases r)
    case (Exhausted t)
    show ?thesis
    proof (cases "a < maxAttempts - 1")
      case True
      have "extends (\<lambda>e. True) w1 (log_event (Wait (800 * (a + 1))) w1)"
        by (rule extends_log_event) simp
      from extends_trans [OF this extends_attemptLoop [of "\<lambda>e. True"]] ll Exhausted True
      show ?thesis by simp
    next
      case False
      with ll Exhausted show ?thesis by simp
    qed
  qed (use ll in simp_all)
  from new_events_trans [OF e1 this] n1 show ?thesis by simp
qed

lemma callGemini_starts:
  "\<exists>evs. new_events w (snd (callGemini env w)) = GetAccessToken # Fetch (hd (locations env)) # evs"
proof -
  obtain l ls where locs: "locations env = l # ls"
    using locations_nonempty [of env] by (cases "locations env") simp_all
  define w0 where "w0 = log_event GetAccessToken w"
  have c: "callGemini env w = attemptLoop env (l # ls) (0 # [1]) w0"
    by (simp add: callGemini_def attempts_list locs w0_def)
  have e1: "extends (\<lambda>e. True) w w0" unfolding w0_def by (rule extends_log_event) simp
  have n1: "new_events w w0 = [GetAccessToken]"
    by (rule new_eventsI) (simp add: w0_def log_event_def)
  have e2: "extends (\<lambda>e. True) w0 (snd (callGemini env w))"
    unfolding c by (rule extends_attemptLoop) simp_all
  from attemptLoop_starts [of w0 env l ls 0 "[1]"] c
  obtain evs where "new_events w0 (snd (callGemini env w)) = Fetch l # evs" by auto
  with new_events_trans [OF e1 e2] n1 locs show ?thesis by simp
qed


lemma image_events:
  "\<exists>rest. new_events w (snd (processReceipt_image env file w))
            = GetAccessToken # Fetch (hd (locations env)) # rest
         \<and> (\<forall>e\<in>set rest. e \<noteq> GetAccessToken \<and> (\<forall>b. e \<noteq> PdfToImg b)
                \<and> (\<forall>up. e = FilesCreate up \<longrightarrow> upload_body up = file_bytes file))"
proof -
  define P where "P = (\<lambda>e. e \<noteq> GetAccessToken \<and> (\<forall>b. e \<noteq> PdfToImg b)
                        \<and> (\<forall>up. e = FilesCreate up \<longrightarrow> upload_body up = file_bytes file))"
  define w0 where "w0 = log_event GetAccessToken w"
  define w1 where "w1 = snd (callGemini env w)"
  define w' where "w' = snd (processReceipt_image env file w)"
  from callGemini_starts [of w env] obtain evs
    where n1: "new_events w w1 = GetAccessToken # Fetch (hd (locations env)) # evs"
    by (auto simp: w1_def)
  have e0: "extends (\<lambda>e. True) w w0" unfolding w0_def by (rule extends_log_event) simp
  have n0: "new_events w w0 = [GetAccessToken]"
    by (rule new_eventsI) (simp add: w0_def log_event_def)
  have e1: "extends P w0 w1" unfolding w0_def w1_def
    by (rule after_token_callGemini) (simp_all add: P_def)
  have e2: "extends P w1 w'" unfolding w1_def w'_def
    by (rule after_call_processReceipt_image) (simp_all add: P_def)
  from new_events_trans [OF e0 e1] n0 n1
  have a: "new_events w0 w1 = Fetch (hd (locations env)) # evs" by simp
  with e1 have p1: "list_all P evs" by (simp add: extends_def)
  from e2 have p2: "list_all P (new_events w1 w')" by (simp add: extends_def)
  from new_events_trans [OF e0 extends_trans [OF e1 e2]] n0 new_events_trans [OF e1 e2] a
  have "new_events w w' = GetAccessToken # Fetch (hd (locations env)) # (evs @ new_events w1 w')"
    by simp
  moreover from p1 p2 have "\<forall>e\<in>set (evs @ new_events w1 w'). P e"
    by (auto simp: list_all_iff)
  ultimately show ?thesis unfolding w'_def P_def by blast
qed

lemma image_success_events:
  assumes "processReceipt_image env file w = (Inr r, w')"
  shows "\<exists>rd up evs. data r = Some rd
           \<and> new_events w w' = GetAccessToken # Fetch (hd (locations env)) # evs @ [FilesCreate up]
           \<and> (\<forall>e\<in>set evs. \<forall>up'. e \<noteq> FilesCreate up')
           \<and> upload_body up = file_bytes file \<and> upload_name up = r_fileName rd"
proof -
  define P where "P = (\<lambda>e. \<forall>up'. e \<noteq> FilesCreate up')"
  from processReceipt_image_success [OF assms]
  obtain d w1 p w2 t w3 name up where
    h: "callGemini env w = (Inr d, w1)"
       "parentFolder env (orElse (data_date d) (today env)) w1 = (Inr p, w2)"
       "resolveCategoryFolder (orElse (data_category d) lit_sonota) p w2 = (Inr t, w3)"
       "name = orElse (data_date d) (today env) @ u ''_'' @ orElse (data_category d) lit_sonota
               @ u ''_'' @ orElse (data_vendor d) lit_fumei @ u ''.jpg''"
       "up = \<lparr>upload_name = name, upload_parent = t,
               upload_mimeType = orElse (Some (file_type file)) (u ''image/jpeg''),
               upload_body = file_bytes file\<rparr>"
       "create_error env up = None"
    by blast
  from processReceipt_image_filed [OF h] assms
  have r: "data r = Some \<lparr>r_date = orElse (data_date d) (today env),
                              r_amount = nullish (data_amount d) 0,
                              r_vendor = nullish (data_vendor d) lit_fumei,
                              r_category = orElse (data_category d) lit_sonota,
                              r_fileName = name\<rparr>" and w: "w' = log_event (FilesCreate up) w3"
    by auto
  define w0 where "w0 = log_event GetAccessToken w"
  from callGemini_starts [of w env] h(1) obtain evs
    where n1: "new_events w w1 = GetAccessToken # Fetch (hd (locations env)) # evs"
    by auto
  have e0: "extends (\<lambda>e. True) w w0" unfolding w0_def by (rule extends_log_event) simp
  have n0: "new_events w w0 = [GetAccessToken]"
    by (rule new_eventsI) (simp add: w0_def log_event_def)
  have e1: "extends P w0 w1"
    using after_token_callGemini [of P w env] h(1) by (simp add: P_def w0_def)
  have e2: "extends P w1 w2"
    using extends_parentFolder [of P w1 env "orElse (data_date d) (today env)"] h(2)
    by (simp add: P_def)
  have e3: "extends P w2 w3"
    using extends_resolveCategoryFolder [of P w2 "orElse (data_category d) lit_sonota" p] h(3)
    by (simp add: P_def)
  have e4: "extends (\<lambda>e. True) w3 w'" unfolding w by (rule extends_log_event) simp
  have n4: "new_events w3 w' = [FilesCreate up]"
    by (rule new_eventsI) (simp add: w log_event_def)
  from new_events_trans [OF e0 e1] n0 n1
  have a: "new_events w0 w1 = Fetch (hd (locations env)) # evs" by simp
  with e1 have p1: "list_all P evs" by (simp add: extends_def)
  have e13: "extends P w1 w3" by (rule extends_trans [OF e2 e3])
  then have p3: "list_all P (new_events w1 w3)" by (simp add: extends_def)
  have e03: "extends P w0 w3" by (rule extends_trans [OF e1 e13])
  from new_events_trans [OF e0 extends_trans [OF extends_mono [OF e03] e4]] n0
    new_events_trans [OF e03 e4] new_events_trans [OF e1 e13] a n4
  have ev: "new_events w w'
      = GetAccessToken # Fetch (hd (locations env)) # (evs @ new_events w1 w3) @ [FilesCreate up]"
    by simp
  from p1 p3 have all: "\<forall>e\<in>set (evs @ new_events w1 w3). \<forall>up'. e \<noteq> FilesCreate up'"
    by (auto simp: list_all_iff P_def)
  show ?thesis
    by (rule exI [of _ "\<lparr>r_date = orElse (data_date d) (today env),
                              r_amount = nullish (data_amount d) 0,
                              r_vendor = nullish (data_vendor d) lit_fumei,
                              r_category = orElse (data_category d) lit_sonota,
                              r_fileName = name\<rparr>"], rule exI [of _ up],
        rule exI [of _ "evs @ new_events w1 w3"]) (use r ev all h(5) in simp)
qed

lemma pdf_events:
  "\<exists>rest. new_events w (snd (processPdf env b name w)) = PdfToImg b # rest
         \<and> (\<forall>e\<in>set rest. (\<forall>b'. e \<noteq> PdfToImg b')
                \<and> (\<forall>up. e = FilesCreate up \<longrightarrow>
                      (\<exists>items. pdf env b = Inr items \<and> Inr (upload_body up) \<in> set items)))"
proof -
  define w0 where "w0 = log_event (PdfToImg b) w"
  define w' where "w' = snd (processPdf env b name w)"
  define P where "P = (\<lambda>e. (\<forall>b'. e \<noteq> PdfToImg b')
                \<and> (\<forall>up. e = FilesCreate up \<longrightarrow>
                      (\<exists>items. pdf env b = Inr items \<and> Inr (upload_body up) \<in> set items)))"
  have e0: "extends (\<lambda>e. True) w w0" unfolding w0_def by (rule extends_log_event) simp
  have n0: "new_events w w0 = [PdfToImg b]"
    by (rule new_eventsI) (simp add: w0_def log_event_def)
  have e1: "extends P w0 w'"
  proof (cases "pdf env b")
    case (Inl m)
    then show ?thesis by (simp add: processPdf_def w0_def w'_def)
  next
    case (Inr items)
    have "extends P w0 (snd (pageLoop env items 0 [] [] w0))"
      by (rule extends_pageLoop) (simp_all add: P_def Inr)
    with Inr show ?thesis by (simp add: snd_processPdf w0_def w'_def)
  qed
  then have "list_all P (new_events w0 w')" by (simp add: extends_def)
  with new_events_trans [OF e0 e1] n0 show ?thesis
    unfolding w'_def P_def by (simp add: list_all_iff)
qed

lemma pdf_success:
  assumes "processPdf env b name w = (Inr r, w')" and "success r"
  shows "\<exists>items rs. pdf env b = Inr items \<and> results r = Some rs \<and> rs \<noteq> []
           \<and> extraction_calls (new_events w w') = length items"
proof (cases "pdf env b")
  case (Inl m)
  with assms show ?thesis by (simp add: processPdf_def)
next
  case (Inr items)
  define w0 where "w0 = log_event (PdfToImg b) w"
  obtain x w1 where pl0: "pageLoop env items 0 [] [] w0 = (x, w1)" by (metis prod.exhaust)
  with Inr assms obtain n rs es where x: "x = Inr (n, rs, es)"
    by (cases x) (auto simp: processPdf_def w0_def)
  with pl0 have pl: "pageLoop env items 0 [] [] w0 = (Inr (n, rs, es), w1)" by simp
  with Inr assms have res: "results r = Some rs" "rs \<noteq> []" and w: "w1 = w'"
    by (auto simp: processPdf_def w0_def failure_def split: if_splits)
  have e0: "extends (\<lambda>e. True) w w0" unfolding w0_def by (rule extends_log_event) simp
  have n0: "new_events w w0 = [PdfToImg b]"
    by (rule new_eventsI) (simp add: w0_def log_event_def)
  have "extends (\<lambda>e. True) w0 (snd (pageLoop env items 0 [] [] w0))"
    by (rule extends_pageLoop) simp_all
  with pl w have e1: "extends (\<lambda>e. True) w0 w'" by simp
  from pageLoop_counts [OF pl] w have "extraction_calls (new_events w0 w') = length items" by simp
  with new_events_trans [OF e0 e1] n0 have "extraction_calls (new_events w w') = length items"
    by (simp add: extraction_calls_def)
  with Inr res show ?thesis by simp
qed

text \<open>
  C10: for a non-empty file, the branch is taken on the type and the name, and each
  branch is the path that its name says.

  If the type is \<open>application/pdf\<close> or the lower-cased name ends with \<open>.pdf\<close>, the first
  thing \<open>processReceipt\<close> does is to split the uploaded bytes into pages, once; every
  upload that follows stores a page that the splitter gave; a success returns a non-empty
  list of records, after one extraction call for each page; and the result has no single
  record.

  Otherwise the splitter is never called: \<open>processReceipt\<close> gets one access token and
  sends the request to the first location; every upload it makes has the uploaded bytes
  as its body; a success returns a single record, and the last thing done, the only
  upload of the run, was to store the uploaded bytes under the name of that record; and
  the result has no list of records.
\<close>

theorem pdf_branch:
  assumes "file_size file \<noteq> 0"
  shows "if file_type file = u ''application/pdf'' \<or> endsWith (toLowerCase env (file_name file)) (u ''.pdf'')
         then (\<exists>rest. new_events w (snd (processReceipt env (Some file) w))
                        = PdfToImg (file_bytes file) # rest
                 \<and> (\<forall>e\<in>set rest. (\<forall>b. e \<noteq> PdfToImg b)
                        \<and> (\<forall>up. e = FilesCreate up \<longrightarrow>
                              (\<exists>items. pdf env (file_bytes file) = Inr items
                                  \<and> Inr (upload_body up) \<in> set items))))
              \<and> (success (fst (processReceipt env (Some file) w)) \<longrightarrow>
                   (\<exists>items rs. pdf env (file_bytes file) = Inr items
                      \<and> results (fst (processReceipt env (Some file) w)) = Some rs \<and> rs \<noteq> []
                      \<and> extraction_calls (new_events w (snd (processReceipt env (Some file) w)))
                          = length items))
              \<and> data (fst (processReceipt env (Some file) w)) = None
         else (\<exists>rest. new_events w (snd (processReceipt env (Some file) w))
                        = GetAccessToken # Fetch (hd (locations env)) # rest
                 \<and> (\<forall>e\<in>set rest. e \<noteq> GetAccessToken \<and> (\<forall>b. e \<noteq> PdfToImg b)
                        \<and> (\<forall>up. e = FilesCreate up \<longrightarrow> upload_body up = file_bytes file)))
              \<and> (success (fst (processReceipt env (Some file) w)) \<longrightarrow>
                   (\<exists>rd up evs. data (fst (processReceipt env (Some file) w)) = Some rd
                      \<and> new_events w (snd (processReceipt env (Some file) w))
                          = GetAccessToken # Fetch (hd (locations env)) # evs @ [FilesCreate up]
                      \<and> (\<forall>e\<in>set evs. \<forall>up'. e \<noteq> FilesCreate up')
                      \<and> upload_body up = file_bytes file \<and> upload_name up = r_fileName rd))
              \<and> results (fst (processReceipt env (Some file) w)) = None"
proof (cases "isPdf env file")
  case True
  have pr: "processReceipt env (Some file) w = catch_all (processPdf env (file_bytes file) (file_name file) w)"
    using assms True by (simp add: processReceipt_def)
  obtain x w' where run: "processPdf env (file_bytes file) (file_name file) w = (x, w')"
    by (metis prod.exhaust)
  have a: "\<exists>rest. new_events w (snd (processReceipt env (Some file) w))
                        = PdfToImg (file_bytes file) # rest
                 \<and> (\<forall>e\<in>set rest. (\<forall>b. e \<noteq> PdfToImg b)
                        \<and> (\<forall>up. e = FilesCreate up \<longrightarrow>
                              (\<exists>items. pdf env (file_bytes file) = Inr items
                                  \<and> Inr (upload_body up) \<in> set items)))"
    unfolding pr snd_catch_all by (rule pdf_events)
  have b: "success (fst (processReceipt env (Some file) w)) \<longrightarrow>
                   (\<exists>items rs. pdf env (file_bytes file) = Inr items
                      \<and> results (fst (processReceipt env (Some file) w)) = Some rs \<and> rs \<noteq> []
                      \<and> extraction_calls (new_events w (snd (processReceipt env (Some file) w)))
                          = length items)"
  proof
    assume s: "success (fst (processReceipt env (Some file) w))"
    with run pr obtain r where x: "x = Inr r" and r: "success r"
      by (cases x) (auto simp: catch_all_def failure_def)
    from pdf_success [OF run [unfolded x] r] run x
    show "\<exists>items rs. pdf env (file_bytes file) = Inr items
                      \<and> results (fst (processReceipt env (Some file) w)) = Some rs \<and> rs \<noteq> []
                      \<and> extraction_calls (new_events w (snd (processReceipt env (Some file) w)))
                          = length items"
      by (simp add: pr catch_all_def)
  qed
  have c: "data (fst (processReceipt env (Some file) w)) = None"
    by (simp add: pr processPdf_def catch_all_def failure_def split: sum.splits prod.splits)
  from a b c True show ?thesis by (simp only: isPdf_def if_True simp_thms)
next
  case False
  have pr: "processReceipt env (Some file) w = catch_all (processReceipt_image env file w)"
    using assms False by (simp add: processReceipt_def)
  obtain x w' where run: "processReceipt_image env file w = (x, w')"
    by (metis prod.exhaust)
  have a: "\<exists>rest. new_events w (snd (processReceipt env (Some file) w))
                        = GetAccessToken # Fetch (hd (locations env)) # rest
                 \<and> (\<forall>e\<in>set rest. e \<noteq> GetAccessToken \<and> (\<forall>b. e \<noteq> PdfToImg b)
                        \<and> (\<forall>up. e = FilesCreate up \<longrightarrow> upload_body up = file_bytes file))"
    unfolding pr snd_catch_all by (rule image_events)
  have b: "success (fst (processReceipt env (Some file) w)) \<longrightarrow>
                   (\<exists>rd up evs. data (fst (processReceipt env (Some file) w)) = Some rd
                      \<and> new_events w (snd (processReceipt env (Some file) w))
                          = GetAccessToken # Fetch (hd (locations env)) # evs @ [FilesCreate up]
                      \<and> (\<forall>e\<in>set evs. \<forall>up'. e \<noteq> FilesCreate up')
                      \<and> upload_body up = file_bytes file \<and> upload_name up = r_fileName rd)"
  proof
    assume s: "success (fst (processReceipt env (Some file) w))"
    with run pr obtain r where x: "x = Inr r"
      by (cases x) (auto simp: catch_all_def failure_def)
    from image_success_events [OF run [unfolded x]] run x
    show "\<exists>rd up evs. data (fst (processReceipt env (Some file) w)) = Some rd
                      \<and> new_events w (snd (processReceipt env (Some file) w))
                          = GetAccessToken # Fetch (hd (locations env)) # evs @ [FilesCreate up]
                      \<and> (\<forall>e\<in>set evs. \<forall>up'. e \<noteq> FilesCreate up')
                      \<and> upload_body up = file_bytes file \<and> upload_name up = r_fileName rd"
      by (simp add: pr catch_all_def)
  qed
  have c: "results (fst (processReceipt env (Some file) w)) = None"
    by (simp add: pr processReceipt_image_def catch_all_def failure_def Let_def
        split: sum.splits prod.splits option.splits)
  from a b c False show ?thesis by (simp only: isPdf_def if_False simp_thms)
qed


lemma photo_run:
  "fst (processReceipt example_env (Some photo) drive_world)
      = \<lparr>success = True,
          message = [0x300C] @ (u ''2024-03-05_'' @ lit_kotsuhi @ u ''_Example Taxi.jpg'') @ lit_saved,
          data = Some \<lparr>r_date = u ''2024-03-05'', r_amount = 1200, r_vendor = u ''Example Taxi'',
                       r_category = lit_kotsuhi,
                       r_fileName = u ''2024-03-05_'' @ lit_kotsuhi @ u ''_Example Taxi.jpg''\<rparr>,
          results = None\<rparr>"
proof -
  have sp: "file_size photo \<noteq> 0" by (simp add: file_size_def photo_def)
  have np: "\<not> isPdf example_env photo"
    by (simp add: isPdf_def photo_def example_env_def endsWith_def u_def)
  have "processReceipt example_env (Some photo) drive_world
      = catch_all (processReceipt_image example_env photo drive_world)"
    using sp np by (simp add: processReceipt_def)
  then show ?thesis unfolding example_image by (simp add: catch_all_def)
qed

lemma scan_run:
  "fst (processReceipt three_pages (Some scan) drive_world)
      = \<lparr>success = True,
         message = u ''PDF '' @ u ''3'' @ lit_pages_of @ u ''2'' @ lit_pages_saved
                    @ u '' ('' @ u ''1'' @ lit_pages_failed,
         data = None, results = Some [taxi_page 1, taxi_page 3]\<rparr>"
proof -
  have ss: "file_size scan \<noteq> 0" by (simp add: file_size_def scan_def)
  have ip: "isPdf three_pages scan"
    by (simp add: isPdf_def scan_def three_pages_def example_env_def endsWith_def u_def)
  have "processReceipt three_pages (Some scan) drive_world
      = catch_all (processPdf three_pages (file_bytes scan) (file_name scan) drive_world)"
    using ss ip by (simp add: processReceipt_def)
  with three_pages_result [of "file_bytes scan" "file_name scan"] show ?thesis
    by (cases "processPdf three_pages (file_bytes scan) (file_name scan) drive_world")
      (simp add: catch_all_def)
qed

theorem pdf_branch_witness:
  "file_size photo \<noteq> 0
   \<and> file_type photo \<noteq> u ''application/pdf''
   \<and> \<not> endsWith (toLowerCase example_env (file_name photo)) (u ''.pdf'')
   \<and> fst (processReceipt example_env (Some photo) drive_world)
      = \<lparr>success = True,
          message = [0x300C] @ (u ''2024-03-05_'' @ lit_kotsuhi @ u ''_Example Taxi.jpg'') @ lit_saved,
          data = Some \<lparr>r_date = u ''2024-03-05'', r_amount = 1200, r_vendor = u ''Example Taxi'',
                       r_category = lit_kotsuhi,
                       r_fileName = u ''2024-03-05_'' @ lit_kotsuhi @ u ''_Example Taxi.jpg''\<rparr>,
          results = None\<rparr>
   \<and> (\<exists>rd up evs. data (fst (processReceipt example_env (Some photo) drive_world)) = Some rd
          \<and> new_events drive_world (snd (processReceipt example_env (Some photo) drive_world))
              = GetAccessToken # Fetch (u ''asia-northeast1'') # evs @ [FilesCreate up]
          \<and> upload_body up = file_bytes photo \<and> upload_name up = r_fileName rd)
   \<and> file_size scan \<noteq> 0
   \<and> endsWith (toLowerCase three_pages (file_name scan)) (u ''.pdf'')
   \<and> pdf three_pages (file_bytes scan) = Inr [Inr [1], Inr [2], Inr [3]]
   \<and> fst (processReceipt three_pages (Some scan) drive_world)
      = \<lparr>success = True,
         message = u ''PDF '' @ u ''3'' @ lit_pages_of @ u ''2'' @ lit_pages_saved
                    @ u '' ('' @ u ''1'' @ lit_pages_failed,
         data = None, results = Some [taxi_page 1, taxi_page 3]\<rparr>
   \<and> (\<exists>rest. new_events drive_world (snd (processReceipt three_pages (Some scan) drive_world))
               = PdfToImg (file_bytes scan) # rest)
   \<and> extraction_calls (new_events drive_world (snd (processReceipt three_pages (Some scan) drive_world)))
       = 3"
proof -
  have sp: "file_size photo \<noteq> 0" by (simp add: file_size_def photo_def)
  have ss: "file_size scan \<noteq> 0" by (simp add: file_size_def scan_def)
  have cp: "file_type photo \<noteq> u ''application/pdf''"
    "\<not> endsWith (toLowerCase example_env (file_name photo)) (u ''.pdf'')"
    by (simp_all add: photo_def example_env_def endsWith_def u_def)
  then have np: "\<not> (file_type photo = u ''application/pdf''
      \<or> endsWith (toLowerCase example_env (file_name photo)) (u ''.pdf''))" by simp
  have cs: "endsWith (toLowerCase three_pages (file_name scan)) (u ''.pdf'')"
    by (simp add: scan_def three_pages_def example_env_def endsWith_def u_def)
  then have ip: "file_type scan = u ''application/pdf''
      \<or> endsWith (toLowerCase three_pages (file_name scan)) (u ''.pdf'')" by simp
  have pages: "pdf three_pages (file_bytes scan) = Inr [Inr [1], Inr [2], Inr [3]]"
    by (simp add: three_pages_def)
  have first: "hd (locations example_env) = u ''asia-northeast1''"
    by (simp add: locations_def example_env_def GOOGLE_LOCATION_def orElse_def u_def)
  have s1: "success (fst (processReceipt example_env (Some photo) drive_world))"
    by (simp add: photo_run)
  have s2: "success (fst (processReceipt three_pages (Some scan) drive_world))"
    by (simp add: scan_run)
  note image = pdf_branch [OF sp, of example_env drive_world, unfolded if_not_P [OF np]]
  from image [THEN conjunct2, THEN conjunct1, THEN mp, OF s1]
  have a: "\<exists>rd up evs. data (fst (processReceipt example_env (Some photo) drive_world)) = Some rd
          \<and> new_events drive_world (snd (processReceipt example_env (Some photo) drive_world))
              = GetAccessToken # Fetch (u ''asia-northeast1'') # evs @ [FilesCreate up]
          \<and> upload_body up = file_bytes photo \<and> upload_name up = r_fileName rd"
    unfolding first by blast
  note batch = pdf_branch [OF ss, of three_pages drive_world, unfolded if_P [OF ip]]
  from batch [THEN conjunct1]
  have b: "\<exists>rest. new_events drive_world (snd (processReceipt three_pages (Some scan) drive_world))
               = PdfToImg (file_bytes scan) # rest" by blast
  from batch [THEN conjunct2, THEN conjunct1, THEN mp, OF s2] pages
  have c: "extraction_calls (new_events drive_world (snd (processReceipt three_pages (Some scan) drive_world)))
       = 3" by auto
  from sp cp photo_run a ss cs pages scan_run b c show ?thesis by (intro conjI)
qed

end
